theory Spec2Isabelle
  imports Complex_Main
begin

section \<open>Data model\<close>

text \<open>
  A Python \<open>str\<close> is a sequence of Unicode code points; \<open>ord\<close> and \<open>chr\<close> convert
  between a one-character string and its code point. A text is modelled as the list of
  its code points. The bit strings the program builds are Python strings over the two
  characters \<open>'0'\<close> and \<open>'1'\<close>; they are modelled as lists of booleans, \<open>True\<close> for
  \<open>'1'\<close>.
\<close>

type_synonym str = "nat list"
type_synonym bits = "bool list"

text \<open>
  Exceptions are values. \<open>ValueError\<close> carries its message: it is raised by the
  program itself (a message that does not fit) and by \<open>chr\<close>. \<open>LibraryError\<close>
  stands for the exception that a numpy, scipy or pywt call raises on an array of a
  size it does not accept (a reduction or a transform of a zero-length array,
  coefficient arrays of different lengths). \<open>NaNSamples\<close> is not an exception: numpy
  divides zero by zero to NaN and carries on. It is what the model of \<open>embed\<close> on a
  channel of real samples returns when every sample of the result is NaN; the model of
  \<open>embed\<close> on a file goes on from there with a channel of NaN samples, as the program
  does.
\<close>

datatype error =
    ValueError str
  | LibraryError
  | IndexError
  | FileNotFoundError
  | NaNSamples

text \<open>
  Samples and transform coefficients are IEEE floating-point numbers in the program.
  The model computes with real and complex numbers: comparisons, \<open>abs\<close>, \<open>max\<close>,
  \<open>floor\<close>, copies and slices are exact in both; the rounding of the arithmetic
  inside the transforms is not modelled.
\<close>

text \<open>
  The program itself produces one kind of array that holds no real numbers: dividing an
  all-zero channel by its peak gives NaN in every position, and whatever is computed
  from a channel of NaN samples is NaN again. \<open>NaNs n\<close> is a channel of \<open>n\<close> NaN
  samples. Among the arrays that a file holds, \<open>NaNMono n\<close> is the one-dimensional
  array of \<open>n\<close> NaN samples, and \<open>NaNStereo rows\<close> the two-dimensional array whose
  column 0 is NaN in every frame, \<open>rows\<close> holding the samples of the other columns
  frame by frame. Arrays with infinite samples, or with NaN in a part of a channel, are
  outside the model.
\<close>

datatype channel = Samples "real list" | NaNs nat

datatype audio =
    Mono "real list"
  | Stereo "real list list"
  | NaNMono nat
  | NaNStereo "real list list"

text \<open>A WAV file holds a sample rate and samples.\<close>

datatype wav = Wav nat audio

type_synonym path = string
type_synonym files = "path \<Rightarrow> wav option"

section \<open>utils/message\_processor.py\<close>

text \<open>
  \<open>format(n, 'b')\<close>: the binary digits of \<open>n\<close>, most significant first, with a single
  digit for zero.
\<close>

fun format_b :: "nat \<Rightarrow> bits" where
  "format_b n = (if n < 2 then [n = 1] else format_b (n div 2) @ [n mod 2 = 1])"

declare format_b.simps [simp del]

text \<open>
  \<open>format(n, '08b')\<close>: the same digits, padded with zeros on the left to a width of at
  least 8. The width is a minimum: a longer digit string is returned whole.
\<close>

definition format_08b :: "nat \<Rightarrow> bits" where
  "format_08b n = replicate (8 - length (format_b n)) False @ format_b n"

text \<open>\<open>binary = ''.join(format(ord(i), '08b') for i in text)\<close>\<close>

definition text_to_binary :: "str \<Rightarrow> bits" where
  "text_to_binary msg = concat (map format_08b msg)"

text \<open>\<open>int(s, 2)\<close> on a string of binary digits.\<close>

definition int2 :: "bits \<Rightarrow> nat" where
  "int2 bs = foldl (\<lambda>a b. 2 * a + (if b then 1 else 0)) 0 bs"

text \<open>
  \<open>chr(v)\<close> raises \<open>ValueError\<close> outside the code point range, with the message
  \<open>chr() arg not in range(0x110000)\<close>.
\<close>

definition chr_message :: str where
  "chr_message = [99, 104, 114, 40, 41, 32, 97, 114, 103, 32, 110, 111, 116, 32, 105, 110,
     32, 114, 97, 110, 103, 101, 40, 48, 120, 49, 49, 48, 48, 48, 48, 41]"

definition chr :: "nat \<Rightarrow> error + nat" where
  "chr v = (if v < 0x110000 then Inr v else Inl (ValueError chr_message))"

text \<open>\<open>range(0, n, 8)\<close>\<close>

definition range_step8 :: "nat \<Rightarrow> nat list" where
  "range_step8 n = map (\<lambda>k. 8 * k) [0 ..< (n + 7) div 8]"

text \<open>
  The list comprehension \<open>[chr(int(binary[i:i + 8], 2)) for i in ...]\<close>: the first
  \<open>chr\<close> that raises ends it.
\<close>

fun decode_chunks :: "bits \<Rightarrow> nat list \<Rightarrow> error + str" where
  "decode_chunks binary [] = Inr []"
| "decode_chunks binary (i # js) =
     (case chr (int2 (take 8 (drop i binary))) of
        Inl e \<Rightarrow> Inl e
      | Inr c \<Rightarrow> (case decode_chunks binary js of
                   Inl e \<Rightarrow> Inl e
                 | Inr cs \<Rightarrow> Inr (c # cs)))"

text \<open>
  \<open>binary_to_text\<close>: a length that is not a multiple of 8 is first cut down by
  \<open>binary[:-(len(binary) % 8)]\<close>.
\<close>

definition binary_to_text :: "bits \<Rightarrow> error + str" where
  "binary_to_text binary0 =
     (let binary = (if length binary0 mod 8 \<noteq> 0
                    then take (length binary0 - length binary0 mod 8) binary0
                    else binary0)
      in decode_chunks binary (range_step8 (length binary)))"

section \<open>utils/audio\_reader.py\<close>

text \<open>
  The file system maps a path to the sample rate and the samples of a WAV file, as
  \<open>read_audio\<close> returns them (already converted to float32). A two-dimensional array is
  a list of frames, each frame holding one sample per channel (at least one).
\<close>

definition read_audio :: "files \<Rightarrow> path \<Rightarrow> error + (nat \<times> audio)" where
  "read_audio fs audio_path =
     (case fs audio_path of
        None \<Rightarrow> Inl FileNotFoundError
      | Some (Wav sample_rate audio_data) \<Rightarrow> Inr (sample_rate, audio_data))"

text \<open>\<open>a.size\<close>, the number of samples of an array.\<close>

definition array_size :: "audio \<Rightarrow> nat" where
  "array_size a =
     (case a of Mono xs \<Rightarrow> length xs
      | Stereo rows \<Rightarrow> length (concat rows)
      | NaNMono n \<Rightarrow> n
      | NaNStereo rows \<Rightarrow> length rows + length (concat rows))"

text \<open>\<open>a / m\<close>; a NaN sample stays NaN.\<close>

definition scale_audio :: "real \<Rightarrow> audio \<Rightarrow> audio" where
  "scale_audio m a =
     (case a of Mono xs \<Rightarrow> Mono (map (\<lambda>v. v / m) xs)
      | Stereo rows \<Rightarrow> Stereo (map (map (\<lambda>v. v / m)) rows)
      | NaNMono n \<Rightarrow> NaNMono n
      | NaNStereo rows \<Rightarrow> NaNStereo (map (map (\<lambda>v. v / m)) rows))"

text \<open>\<open>np.max(np.abs(a))\<close> of a non-empty array of real samples.\<close>

definition max_abs :: "real list \<Rightarrow> real" where
  "max_abs xs = Max (set (map abs xs))"

text \<open>
  \<open>np.max(np.abs(audio_data))\<close> of a non-empty array of a file: \<open>np.max\<close> returns NaN
  (here \<open>None\<close>) as soon as one sample is NaN.
\<close>

definition peak_of :: "audio \<Rightarrow> real option" where
  "peak_of a =
     (case a of Mono xs \<Rightarrow> Some (max_abs xs)
      | Stereo rows \<Rightarrow> Some (max_abs (concat rows))
      | NaNMono n \<Rightarrow> None
      | NaNStereo rows \<Rightarrow> None)"

text \<open>
  \<open>save_audio\<close>: the samples are divided by their peak when the peak exceeds 1, then
  written. A NaN peak does not exceed 1, so that an array with NaN samples is written as
  it is. \<open>np.max\<close> raises on an array without elements.
\<close>

definition normalize_audio :: "audio \<Rightarrow> audio" where
  "normalize_audio audio_data =
     (case peak_of audio_data of
        Some max_val \<Rightarrow> if max_val > 1 then scale_audio max_val audio_data else audio_data
      | None \<Rightarrow> audio_data)"

definition save_audio :: "files \<Rightarrow> path \<Rightarrow> nat \<Rightarrow> audio \<Rightarrow> error + files" where
  "save_audio fs audio_path sample_rate audio_data =
     (if array_size audio_data = 0 then Inl LibraryError
      else Inr (fs(audio_path \<mapsto> Wav sample_rate (normalize_audio audio_data))))"

text \<open>
  The channel the strategies work on: the array itself, or column 0 of a
  two-dimensional array; and the assignment \<open>modified_audio[:, 0] = modified_channel\<close>
  on a copy of the data (the two have the same length in every caller).
\<close>

definition first_channel :: "audio \<Rightarrow> channel" where
  "first_channel a =
     (case a of Mono xs \<Rightarrow> Samples xs
      | Stereo rows \<Rightarrow> Samples (map (\<lambda>r. r ! 0) rows)
      | NaNMono n \<Rightarrow> NaNs n
      | NaNStereo rows \<Rightarrow> NaNs (length rows))"

definition with_first_channel :: "audio \<Rightarrow> channel \<Rightarrow> audio" where
  "with_first_channel a ch =
     (case ch of
        Samples modified_channel \<Rightarrow>
          (case a of Mono xs \<Rightarrow> Mono modified_channel
           | Stereo rows \<Rightarrow> Stereo (map2 (\<lambda>r v. r[0 := v]) rows modified_channel)
           | NaNMono n \<Rightarrow> Mono modified_channel
           | NaNStereo rows \<Rightarrow> Stereo (map2 (\<lambda>r v. v # r) rows modified_channel))
      | NaNs n \<Rightarrow>
          (case a of Mono xs \<Rightarrow> NaNMono n
           | Stereo rows \<Rightarrow> NaNStereo (map tl rows)
           | NaNMono k \<Rightarrow> NaNMono n
           | NaNStereo rows \<Rightarrow> NaNStereo rows))"

section \<open>Message framing shared by the strategies\<close>

definition END_MARKER :: bits where
  "END_MARKER = [True, True, True, True, True, True, True, True,
                 True, True, True, True, True, True, True, False]"

text \<open>\<open>s.endswith(suffix)\<close>\<close>

definition endswith :: "bits \<Rightarrow> bits \<Rightarrow> bool" where
  "endswith s suffix =
     (length suffix \<le> length s \<and> drop (length s - length suffix) s = suffix)"

text \<open>\<open>str(n)\<close> of an integer.\<close>

fun str_nat :: "nat \<Rightarrow> str" where
  "str_nat n = (if n < 10 then [48 + n] else str_nat (n div 10) @ [48 + n mod 10])"

declare str_nat.simps [simp del]

definition str_int :: "int \<Rightarrow> str" where
  "str_int i = (if i < 0 then 45 # str_nat (nat (- i)) else str_nat (nat i))"

text \<open>
  The message of the \<open>ValueError\<close> that \<open>embed\<close> raises when the framed message
  exceeds the capacity (the specification's \<open>CapacityError\<close>); the f-string reads, in
  Ukrainian, "The message is too large. Maximum n bits."
\<close>

definition capacity_message :: "int \<Rightarrow> str" where
  "capacity_message max_bits =
     [1055, 1086, 1074, 1110, 1076, 1086, 1084, 1083, 1077, 1085, 1085, 1103, 32, 1079,
      1072, 1085, 1072, 1076, 1090, 1086, 32, 1074, 1077, 1083, 1080, 1082, 1077, 46, 32,
      1052, 1072, 1082, 1089, 1080, 1084, 1091, 1084, 32]
     @ str_int max_bits @ [32, 1073, 1110, 1090, 46]"

definition CapacityError :: "int \<Rightarrow> error" where
  "CapacityError max_bits = ValueError (capacity_message max_bits)"

text \<open>
  The string that the cosine and the wavelet strategy return for an empty bit string;
  it reads "Failed to extract the message".
\<close>

definition extraction_failed :: str where
  "extraction_failed =
     [1053, 1077, 32, 1074, 1076, 1072, 1083, 1086, 1089, 1103, 32, 1074, 1080, 1083, 1091,
      1095, 1080, 1090, 1080, 32, 1087, 1086, 1074, 1110, 1076, 1086, 1084, 1083, 1077, 1085,
      1085, 1103]"

text \<open>The prefix "Decoding error: " of the strings returned from an \<open>except\<close> branch.\<close>

definition decoding_error_prefix :: str where
  "decoding_error_prefix =
     [1055, 1086, 1084, 1080, 1083, 1082, 1072, 32, 1076, 1077, 1082, 1086, 1076, 1091,
      1074, 1072, 1085, 1085, 1103, 58, 32]"

text \<open>
  \<open>str(e)\<close> of an exception, and a bit string as the text it is in Python. The only
  exception that \<open>binary_to_text\<close> can hand to an \<open>except\<close> branch is the
  \<open>ValueError\<close> of \<open>int\<close> or \<open>chr\<close>, whose message is kept; the other errors of
  the model carry no message.
\<close>

definition str_error :: "error \<Rightarrow> str" where
  "str_error e = (case e of ValueError m \<Rightarrow> m | _ \<Rightarrow> [])"

definition str_bits :: "bits \<Rightarrow> str" where
  "str_bits bs = map (\<lambda>b. if b then 49 else 48) bs"

section \<open>methods/dct\_steganography.py\<close>

definition block_size :: nat where "block_size = 1024"
definition target_coef :: nat where "target_coef = 5"
definition dct_bit1_value :: real where "dct_bit1_value = 1 / 10"
definition dct_bit0_value :: real where "dct_bit0_value = - (1 / 10)"
definition dct_threshold :: real where "dct_threshold = 0"

text \<open>
  \<open>scipy.fftpack.dct(x, type=2, norm='ortho')\<close> and its inverse
  \<open>idct(y, type=2, norm='ortho')\<close>, after the library's documentation:
  \<open>y[k] = f(k) * sum_n x[n] * cos(pi * k * (2n + 1) / (2N))\<close> with
  \<open>f(0) = sqrt(1/N)\<close> and \<open>f(k) = sqrt(2/N)\<close> otherwise.
\<close>

definition dct_angle :: "nat \<Rightarrow> nat \<Rightarrow> nat \<Rightarrow> real" where
  "dct_angle N k n = pi * real k * (2 * real n + 1) / (2 * real N)"

definition dct_norm :: "nat \<Rightarrow> nat \<Rightarrow> real" where
  "dct_norm N k = (if k = 0 then sqrt (1 / real N) else sqrt (2 / real N))"

definition dct :: "real list \<Rightarrow> real list" where
  "dct x = (let N = length x
            in map (\<lambda>k. dct_norm N k * (\<Sum>n < N. x ! n * cos (dct_angle N k n))) [0 ..< N])"

definition idct :: "real list \<Rightarrow> real list" where
  "idct y = (let N = length y
             in map (\<lambda>n. \<Sum>k < N. dct_norm N k * y ! k * cos (dct_angle N k n)) [0 ..< N])"

text \<open>
  The embedding loop \<open>for i in range(len(binary_message))\<close>, with the arrays it reads
  (\<open>channel_1\<close>) and writes (\<open>modified_channel\<close>). Every block has \<open>block_size\<close>
  samples, since \<open>i < num_blocks\<close>, so the index \<open>target_coef\<close> is inside it.
\<close>

function dct_embed_loop :: "real list \<Rightarrow> bits \<Rightarrow> nat \<Rightarrow> nat \<Rightarrow> real list \<Rightarrow> real list" where
  "dct_embed_loop channel_1 binary_message num_blocks i modified_channel =
     (if i < length binary_message then
        if i \<ge> num_blocks then modified_channel
        else
          let start_idx = i * block_size;
              end_idx = start_idx + block_size;
              block = take (end_idx - start_idx) (drop start_idx channel_1);
              block_dct = dct block;
              block_dct = (if binary_message ! i
                           then block_dct[target_coef := dct_bit1_value]
                           else block_dct[target_coef := dct_bit0_value]);
              modified_block = idct block_dct;
              modified_channel =
                take start_idx modified_channel @ modified_block @ drop end_idx modified_channel
          in dct_embed_loop channel_1 binary_message num_blocks (i + 1) modified_channel
      else modified_channel)"
  by pat_completeness auto
termination
  by (relation "measure (\<lambda>(c, b, n, i, m). length b - i)") auto

declare dct_embed_loop.simps [simp del]

definition dct_embed_channel :: "real list \<Rightarrow> str \<Rightarrow> error + real list" where
  "dct_embed_channel channel_1 message =
     (let binary_message = text_to_binary message @ END_MARKER;
          num_blocks = length channel_1 div block_size
      in if length binary_message > num_blocks
         then Inl (CapacityError (int num_blocks))
         else Inr (dct_embed_loop channel_1 binary_message num_blocks 0 channel_1))"

text \<open>
  The same lines on a channel of \<open>n\<close> NaN samples. The capacity check looks at lengths
  only. Every block is NaN before the loop, and a block that the loop rewrites is the
  inverse transform of coefficients that are NaN but for one: the channel is NaN in
  every position afterwards as well.
\<close>

definition dct_embed_nan :: "nat \<Rightarrow> str \<Rightarrow> error + nat" where
  "dct_embed_nan n message =
     (let binary_message = text_to_binary message @ END_MARKER;
          num_blocks = n div block_size
      in if length binary_message > num_blocks
         then Inl (CapacityError (int num_blocks))
         else Inr n)"

definition dct_embed_samples :: "channel \<Rightarrow> str \<Rightarrow> error + channel" where
  "dct_embed_samples ch message =
     (case ch of
        Samples channel_1 \<Rightarrow> map_sum id Samples (dct_embed_channel channel_1 message)
      | NaNs n \<Rightarrow> map_sum id NaNs (dct_embed_nan n message))"

text \<open>
  \<open>embed(audio_path, message, output_path)\<close>. The result is the file system after the
  call together with the exception raised or the pair returned.
\<close>

definition dct_embed ::
  "files \<Rightarrow> path \<Rightarrow> str \<Rightarrow> path \<Rightarrow> files \<times> (error + audio \<times> audio)" where
  "dct_embed fs audio_path message output_path =
     (case read_audio fs audio_path of
        Inl e \<Rightarrow> (fs, Inl e)
      | Inr (sample_rate, audio_data) \<Rightarrow>
          (case dct_embed_samples (first_channel audio_data) message of
             Inl e \<Rightarrow> (fs, Inl e)
           | Inr modified_channel \<Rightarrow>
               let modified_audio = with_first_channel audio_data modified_channel
               in (case save_audio fs output_path sample_rate modified_audio of
                     Inl e \<Rightarrow> (fs, Inl e)
                   | Inr fs' \<Rightarrow> (fs', Inr (audio_data, modified_audio)))))"

text \<open>
  The extraction loop \<open>for i in range(num_blocks)\<close>. The loop over the first
  \<open>min(5, num_blocks)\<close> blocks that precedes it only prints the coefficients it
  reads, all of them inside their blocks, and has no counterpart here.
\<close>

function dct_extract_loop :: "real list \<Rightarrow> nat \<Rightarrow> nat \<Rightarrow> bits \<Rightarrow> bits" where
  "dct_extract_loop channel_1 num_blocks i binary_message =
     (if i < num_blocks then
        let start_idx = i * block_size;
            end_idx = start_idx + block_size;
            block = take (end_idx - start_idx) (drop start_idx channel_1);
            block_dct = dct block;
            coef_value = block_dct ! target_coef;
            binary_message = binary_message @ [coef_value > dct_threshold]
        in if endswith binary_message END_MARKER
           then take (length binary_message - length END_MARKER) binary_message
           else dct_extract_loop channel_1 num_blocks (i + 1) binary_message
      else binary_message)"
  by pat_completeness auto
termination
  by (relation "measure (\<lambda>(c, n, i, b). n - i)") auto

declare dct_extract_loop.simps [simp del]

text \<open>
  The \<open>except\<close> branch returns "Decoding error: e. Binary string: ..." with the first
  50 bits.
\<close>

definition dct_decoding_error :: "error \<Rightarrow> bits \<Rightarrow> str" where
  "dct_decoding_error e binary_message =
     decoding_error_prefix @ str_error e
     @ [46, 32, 1041, 1110, 1085, 1072, 1088, 1085, 1080, 1081, 32, 1088, 1103, 1076, 1086,
        1082, 58, 32]
     @ str_bits (take 50 binary_message) @ [46, 46, 46]"

definition dct_extract_channel :: "real list \<Rightarrow> str" where
  "dct_extract_channel channel_1 =
     (let num_blocks = length channel_1 div block_size;
          binary_message = dct_extract_loop channel_1 num_blocks 0 []
      in if length binary_message > 0
         then (case binary_to_text binary_message of
                 Inr text \<Rightarrow> text
               | Inl e \<Rightarrow> dct_decoding_error e binary_message)
         else extraction_failed)"

text \<open>
  The same lines on a channel of \<open>n\<close> NaN samples: the coefficient of every block is
  NaN, and \<open>coef_value > self.threshold\<close> is false for NaN, so that every block
  appends \<open>'0'\<close>.
\<close>

function dct_extract_loop_nan :: "nat \<Rightarrow> nat \<Rightarrow> bits \<Rightarrow> bits" where
  "dct_extract_loop_nan num_blocks i binary_message =
     (if i < num_blocks then
        let binary_message = binary_message @ [False]
        in if endswith binary_message END_MARKER
           then take (length binary_message - length END_MARKER) binary_message
           else dct_extract_loop_nan num_blocks (i + 1) binary_message
      else binary_message)"
  by pat_completeness auto
termination
  by (relation "measure (\<lambda>(n, i, b). n - i)") auto

declare dct_extract_loop_nan.simps [simp del]

definition dct_extract_nan :: "nat \<Rightarrow> str" where
  "dct_extract_nan n =
     (let num_blocks = n div block_size;
          binary_message = dct_extract_loop_nan num_blocks 0 []
      in if length binary_message > 0
         then (case binary_to_text binary_message of
                 Inr text \<Rightarrow> text
               | Inl e \<Rightarrow> dct_decoding_error e binary_message)
         else extraction_failed)"

definition dct_extract :: "files \<Rightarrow> path \<Rightarrow> error + str" where
  "dct_extract fs audio_path =
     (case read_audio fs audio_path of
        Inl e \<Rightarrow> Inl e
      | Inr (sample_rate, audio_data) \<Rightarrow>
          (case first_channel audio_data of
             Samples channel_1 \<Rightarrow> Inr (dct_extract_channel channel_1)
           | NaNs n \<Rightarrow> Inr (dct_extract_nan n)))"

section \<open>methods/dft\_steganography.py\<close>

definition start_idx :: nat where "start_idx = 2000"
definition dft_step :: nat where "dft_step = 2"
definition dft_bit1_value :: real where "dft_bit1_value = 1 / 100"
definition dft_bit0_value :: real where "dft_bit0_value = 1 / 1000"
definition dft_threshold :: real where "dft_threshold = 5 / 1000"

text \<open>
  \<open>scipy.fft.fft\<close> and \<open>ifft\<close> of a non-empty array, after the library's
  documentation: \<open>X[k] = sum_n x[n] * exp(-2j * pi * k * n / N)\<close> and
  \<open>x[n] = (1/N) * sum_k X[k] * exp(2j * pi * k * n / N)\<close>.
\<close>

definition fft :: "complex list \<Rightarrow> complex list" where
  "fft x = (let N = length x
            in map (\<lambda>k. \<Sum>n < N. x ! n * cis (- (2 * pi * real k * real n / real N)))
                 [0 ..< N])"

definition ifft :: "complex list \<Rightarrow> complex list" where
  "ifft X = (let N = length X
             in map (\<lambda>n. (\<Sum>k < N. X ! k * cis (2 * pi * real k * real n / real N))
                          / of_nat N)
                  [0 ..< N])"

text \<open>\<open>max_bits = (len(channel_1) // 2 - self.start_idx) // self.step\<close>, an integer
  that is negative for a short channel.\<close>

definition dft_max_bits :: "nat \<Rightarrow> int" where
  "dft_max_bits N = (int N div 2 - int start_idx) div int dft_step"

text \<open>
  The embedding loop \<open>for i, bit in enumerate(binary_message)\<close> over the spectrum.
  \<open>channel_dft[-idx]\<close> is the entry at \<open>len(channel_dft) - idx\<close>; \<open>np.angle\<close> is the
  argument in \<open>(-pi, pi]\<close>, zero for zero.
\<close>

function dft_embed_loop :: "bits \<Rightarrow> real \<Rightarrow> nat \<Rightarrow> complex list \<Rightarrow> complex list" where
  "dft_embed_loop binary_message max_amp i channel_dft =
     (if i < length binary_message then
        let idx = start_idx + i * dft_step
        in if idx \<ge> length channel_dft div 2 then channel_dft
           else
             let phase = Arg (channel_dft ! idx);
                 amp = (if binary_message ! i then dft_bit1_value else dft_bit0_value);
                 amp = min amp (max_amp * (1 / 10));
                 channel_dft = channel_dft[idx := of_real amp * cis phase];
                 channel_dft = channel_dft[length channel_dft - idx := cnj (channel_dft ! idx)]
             in dft_embed_loop binary_message max_amp (i + 1) channel_dft
      else channel_dft)"
  by pat_completeness auto
termination
  by (relation "measure (\<lambda>(b, m, i, c). length b - i)") auto

declare dft_embed_loop.simps [simp del]

text \<open>
  \<open>embed\<close> on a channel of real samples. The channel is a fresh array (\<open>astype\<close>
  copies) that is divided by its peak before the capacity is checked; the quotient of an
  all-zero channel is NaN in every position, which no later step rejects: the spectrum,
  the embedded bins (their phase is NaN), the inverse transform and its peak are NaN,
  the peak does not exceed 1, and \<open>embed\<close> below writes the NaN samples to the output
  file and returns them.
\<close>

definition dft_embed_channel :: "real list \<Rightarrow> str \<Rightarrow> error + real list" where
  "dft_embed_channel channel_0 message =
     (if channel_0 = [] then Inl LibraryError
      else
        let peak = max_abs channel_0;
            binary_message = text_to_binary message @ END_MARKER;
            max_bits = dft_max_bits (length channel_0)
        in if int (length binary_message) > max_bits then Inl (CapacityError max_bits)
           else if peak = 0 then Inl NaNSamples
           else
             let channel_1 = map (\<lambda>v. v / peak) channel_0;
                 channel_dft = fft (map complex_of_real channel_1);
                 max_amp = max_abs (map cmod channel_dft);
                 channel_dft = dft_embed_loop binary_message max_amp 0 channel_dft;
                 modified_channel = map Re (ifft channel_dft);
                 max_val = max_abs modified_channel
             in Inr (if max_val > 1 then map (\<lambda>v. v / max_val) modified_channel
                     else modified_channel))"

text \<open>
  The same lines on a channel of \<open>n\<close> NaN samples: the peak is NaN, the capacity check
  looks at lengths only, and the result is NaN in every position.
\<close>

definition dft_embed_nan :: "nat \<Rightarrow> str \<Rightarrow> error + nat" where
  "dft_embed_nan n message =
     (if n = 0 then Inl LibraryError
      else
        let binary_message = text_to_binary message @ END_MARKER;
            max_bits = dft_max_bits n
        in if int (length binary_message) > max_bits then Inl (CapacityError max_bits)
           else Inr n)"

definition dft_embed_samples :: "channel \<Rightarrow> str \<Rightarrow> error + channel" where
  "dft_embed_samples ch message =
     (case ch of
        Samples channel_0 \<Rightarrow>
          (case dft_embed_channel channel_0 message of
             Inl NaNSamples \<Rightarrow> Inr (NaNs (length channel_0))
           | Inl e \<Rightarrow> Inl e
           | Inr modified_channel \<Rightarrow> Inr (Samples modified_channel))
      | NaNs n \<Rightarrow> map_sum id NaNs (dft_embed_nan n message))"

definition dft_embed ::
  "files \<Rightarrow> path \<Rightarrow> str \<Rightarrow> path \<Rightarrow> files \<times> (error + audio \<times> audio)" where
  "dft_embed fs audio_path message output_path =
     (case read_audio fs audio_path of
        Inl e \<Rightarrow> (fs, Inl e)
      | Inr (sample_rate, audio_data) \<Rightarrow>
          (case dft_embed_samples (first_channel audio_data) message of
             Inl e \<Rightarrow> (fs, Inl e)
           | Inr modified_channel \<Rightarrow>
               let modified_audio = with_first_channel audio_data modified_channel
               in (case save_audio fs output_path sample_rate modified_audio of
                     Inl e \<Rightarrow> (fs, Inl e)
                   | Inr fs' \<Rightarrow> (fs', Inr (audio_data, modified_audio)))))"

text \<open>The extraction loop \<open>for i in range(max_bits)\<close>.\<close>

function dft_extract_loop :: "complex list \<Rightarrow> int \<Rightarrow> nat \<Rightarrow> bits \<Rightarrow> bits" where
  "dft_extract_loop channel_dft max_bits i binary_message =
     (if int i < max_bits then
        let idx = start_idx + i * dft_step
        in if idx \<ge> length channel_dft div 2 then binary_message
           else
             let amplitude = cmod (channel_dft ! idx);
                 binary_message = binary_message @ [amplitude > dft_threshold]
             in if endswith binary_message END_MARKER
                then take (length binary_message - length END_MARKER) binary_message
                else dft_extract_loop channel_dft max_bits (i + 1) binary_message
      else binary_message)"
  by pat_completeness auto
termination
  by (relation "measure (\<lambda>(c, m, i, b). nat (m - int i))") auto

declare dft_extract_loop.simps [simp del]

text \<open>
  The string of the \<open>except\<close> branch: "Decoding error or the message is damaged."
\<close>

definition dft_decoding_error :: str where
  "dft_decoding_error =
     [1055, 1086, 1084, 1080, 1083, 1082, 1072, 32, 1076, 1077, 1082, 1086, 1076, 1091,
      1074, 1072, 1085, 1085, 1103, 32, 1072, 1073, 1086, 32, 1087, 1086, 1074, 1110, 1076,
      1086, 1084, 1083, 1077, 1085, 1085, 1103, 32, 1087, 1086, 1096, 1082, 1086, 1076,
      1078, 1077, 1085, 1077, 46]"

text \<open>
  \<open>extract\<close> on the channel. Before the extraction loop a diagnostic loop reads
  \<open>channel_dft[self.start_idx + i * self.step]\<close> for \<open>i\<close> in \<open>range(10)\<close> without a
  bound check, which raises \<open>IndexError\<close> on a short channel. After the loop a missing
  marker is only printed.
\<close>

definition dft_extract_channel :: "real list \<Rightarrow> error + str" where
  "dft_extract_channel channel_1 =
     (if channel_1 = [] then Inl LibraryError
      else
        let channel_dft = fft (map complex_of_real channel_1);
            max_bits = dft_max_bits (length channel_1)
        in if \<not> list_all (\<lambda>i. start_idx + i * dft_step < length channel_dft) [0 ..< 10]
           then Inl IndexError
           else
             let binary_message = dft_extract_loop channel_dft max_bits 0 []
             in (case binary_to_text binary_message of
                   Inr text \<Rightarrow> Inr text
                 | Inl e \<Rightarrow> Inr dft_decoding_error))"

text \<open>
  The same lines on a channel of \<open>n\<close> NaN samples: the spectrum has \<open>n\<close> entries, all
  NaN, and \<open>amplitude > self.threshold\<close> is false for NaN, so that every position
  appends \<open>'0'\<close>.
\<close>

function dft_extract_loop_nan :: "nat \<Rightarrow> int \<Rightarrow> nat \<Rightarrow> bits \<Rightarrow> bits" where
  "dft_extract_loop_nan n max_bits i binary_message =
     (if int i < max_bits then
        let idx = start_idx + i * dft_step
        in if idx \<ge> n div 2 then binary_message
           else
             let binary_message = binary_message @ [False]
             in if endswith binary_message END_MARKER
                then take (length binary_message - length END_MARKER) binary_message
                else dft_extract_loop_nan n max_bits (i + 1) binary_message
      else binary_message)"
  by pat_completeness auto
termination
  by (relation "measure (\<lambda>(n, m, i, b). nat (m - int i))") auto

declare dft_extract_loop_nan.simps [simp del]

definition dft_extract_nan :: "nat \<Rightarrow> error + str" where
  "dft_extract_nan n =
     (if n = 0 then Inl LibraryError
      else
        let max_bits = dft_max_bits n
        in if \<not> list_all (\<lambda>i. start_idx + i * dft_step < n) [0 ..< 10]
           then Inl IndexError
           else
             let binary_message = dft_extract_loop_nan n max_bits 0 []
             in (case binary_to_text binary_message of
                   Inr text \<Rightarrow> Inr text
                 | Inl e \<Rightarrow> Inr dft_decoding_error))"

definition dft_extract :: "files \<Rightarrow> path \<Rightarrow> error + str" where
  "dft_extract fs audio_path =
     (case read_audio fs audio_path of
        Inl e \<Rightarrow> Inl e
      | Inr (sample_rate, audio_data) \<Rightarrow>
          (case first_channel audio_data of
             Samples channel_1 \<Rightarrow> dft_extract_channel channel_1
           | NaNs n \<Rightarrow> dft_extract_nan n))"

section \<open>methods/dwt\_steganography.py\<close>

definition level :: nat where "level = 5"
definition subband_idx :: nat where "subband_idx = 2"
definition dwt_step :: nat where "dwt_step = 100"
definition bit1_frac :: real where "bit1_frac = 3 / 4"
definition bit0_frac :: real where "bit0_frac = 1 / 4"

text \<open>
  \<open>pywt.dwt\<close> and \<open>pywt.idwt\<close> for the wavelet \<open>'db1'\<close> (Haar) in the default signal
  extension mode \<open>'symmetric'\<close>: an array of odd length is extended by a copy of its
  last sample, and each pair of samples gives one approximation coefficient
  \<open>(x[2i] + x[2i+1]) / sqrt(2)\<close> and one detail coefficient
  \<open>(x[2i] - x[2i+1]) / sqrt(2)\<close>.
\<close>

definition symmetric_pad :: "real list \<Rightarrow> real list" where
  "symmetric_pad x = (if even (length x) then x else x @ [last x])"

definition dwt_cA :: "real list \<Rightarrow> real list" where
  "dwt_cA x = (let p = symmetric_pad x
               in map (\<lambda>i. (p ! (2 * i) + p ! (2 * i + 1)) / sqrt 2) [0 ..< length p div 2])"

definition dwt_cD :: "real list \<Rightarrow> real list" where
  "dwt_cD x = (let p = symmetric_pad x
               in map (\<lambda>i. (p ! (2 * i) - p ! (2 * i + 1)) / sqrt 2) [0 ..< length p div 2])"

definition idwt :: "real list \<Rightarrow> real list \<Rightarrow> real list" where
  "idwt cA cD =
     concat (map (\<lambda>i. [(cA ! i + cD ! i) / sqrt 2, (cA ! i - cD ! i) / sqrt 2])
               [0 ..< length cA])"

text \<open>
  \<open>pywt.wavedec(data, 'db1', level=n)\<close> returns \<open>[cA_n, cD_n, ..., cD_1]\<close>: each level
  decomposes the approximation of the one before.
\<close>

fun wavedec :: "real list \<Rightarrow> nat \<Rightarrow> real list list" where
  "wavedec a 0 = [a]"
| "wavedec a (Suc n) = wavedec (dwt_cA a) n @ [dwt_cD a]"

text \<open>
  \<open>pywt.waverec(coeffs, 'db1')\<close>: starting from the approximation, each detail array
  is merged in; an approximation one sample longer than the detail array first loses
  its last sample, and any other difference of lengths raises.
\<close>

fun waverec_loop :: "real list \<Rightarrow> real list list \<Rightarrow> error + real list" where
  "waverec_loop a [] = Inr a"
| "waverec_loop a (d # ds) =
     (let a = (if length a = length d + 1 then butlast a else a)
      in if length a \<noteq> length d then Inl LibraryError
         else waverec_loop (idwt a d) ds)"

definition waverec :: "real list list \<Rightarrow> error + real list" where
  "waverec coeffs =
     (case coeffs of [] \<Rightarrow> Inl LibraryError | a # ds \<Rightarrow> waverec_loop a ds)"

text \<open>
  The embedding loop \<open>for i, bit in enumerate(binary_message)\<close>; \<open>target_subband\<close> is
  the array inside \<open>coeffs\<close>, so the loop changes \<open>coeffs\<close>.
\<close>

function dwt_embed_loop :: "bits \<Rightarrow> nat \<Rightarrow> real list \<Rightarrow> real list" where
  "dwt_embed_loop binary_message i target_subband =
     (if i < length binary_message then
        if i * dwt_step \<ge> length target_subband then target_subband
        else
          let idx = i * dwt_step;
              base = real_of_int \<lfloor>target_subband ! idx\<rfloor>;
              target_subband =
                (if binary_message ! i
                 then target_subband[idx := base + bit1_frac]
                 else target_subband[idx := base + bit0_frac])
          in dwt_embed_loop binary_message (i + 1) target_subband
      else target_subband)"
  by pat_completeness auto
termination
  by (relation "measure (\<lambda>(b, i, t). length b - i)") auto

declare dwt_embed_loop.simps [simp del]

definition dwt_embed_channel :: "real list \<Rightarrow> str \<Rightarrow> error + real list" where
  "dwt_embed_channel channel_1 message =
     (let binary_message = text_to_binary message @ END_MARKER
      in if channel_1 = [] then Inl LibraryError
         else
           let coeffs = wavedec channel_1 level;
               target_subband = coeffs ! subband_idx
           in if length binary_message > length target_subband div dwt_step
              then Inl (CapacityError (int (length target_subband div dwt_step)))
              else
                let target_subband = dwt_embed_loop binary_message 0 target_subband;
                    coeffs = coeffs[subband_idx := target_subband]
                in (case waverec coeffs of
                      Inl e \<Rightarrow> Inl e
                    | Inr modified_channel \<Rightarrow>
                        Inr (take (length channel_1) modified_channel)))"

text \<open>
  The same lines on a channel of \<open>n\<close> NaN samples. The coefficient arrays have the
  lengths of the coefficient arrays of any channel of \<open>n\<close> samples and hold NaN; the
  loop writes \<open>np.floor\<close> of NaN plus a fraction, which is NaN, and the reconstruction
  is NaN in every position.
\<close>

definition dwt_embed_nan :: "nat \<Rightarrow> str \<Rightarrow> error + nat" where
  "dwt_embed_nan n message =
     (let binary_message = text_to_binary message @ END_MARKER
      in if n = 0 then Inl LibraryError
         else
           let len_target_subband = length (wavedec (replicate n 0) level ! subband_idx)
           in if length binary_message > len_target_subband div dwt_step
              then Inl (CapacityError (int (len_target_subband div dwt_step)))
              else Inr n)"

definition dwt_embed_samples :: "channel \<Rightarrow> str \<Rightarrow> error + channel" where
  "dwt_embed_samples ch message =
     (case ch of
        Samples channel_1 \<Rightarrow> map_sum id Samples (dwt_embed_channel channel_1 message)
      | NaNs n \<Rightarrow> map_sum id NaNs (dwt_embed_nan n message))"

definition dwt_embed ::
  "files \<Rightarrow> path \<Rightarrow> str \<Rightarrow> path \<Rightarrow> files \<times> (error + audio \<times> audio)" where
  "dwt_embed fs audio_path message output_path =
     (case read_audio fs audio_path of
        Inl e \<Rightarrow> (fs, Inl e)
      | Inr (sample_rate, audio_data) \<Rightarrow>
          (case dwt_embed_samples (first_channel audio_data) message of
             Inl e \<Rightarrow> (fs, Inl e)
           | Inr modified_channel \<Rightarrow>
               let modified_audio = with_first_channel audio_data modified_channel
               in (case save_audio fs output_path sample_rate modified_audio of
                     Inl e \<Rightarrow> (fs, Inl e)
                   | Inr fs' \<Rightarrow> (fs', Inr (audio_data, modified_audio)))))"

text \<open>
  The extraction loop \<open>for i in range(len(target_subband) // self.step)\<close>; its
  \<open>else\<close> clause only prints that the marker was not found. The loop over
  \<open>range(5)\<close> that precedes it prints the fractional parts at the positions inside
  the subband (\<open>if idx < len(target_subband)\<close>) and has no counterpart here.
\<close>

function dwt_extract_loop :: "real list \<Rightarrow> nat \<Rightarrow> bits \<Rightarrow> bits" where
  "dwt_extract_loop target_subband i binary_message =
     (if i < length target_subband div dwt_step then
        let idx = i * dwt_step;
            frac_part = target_subband ! idx - real_of_int \<lfloor>target_subband ! idx\<rfloor>;
            binary_message = binary_message @ [frac_part \<ge> 1 / 2]
        in if endswith binary_message END_MARKER
           then take (length binary_message - length END_MARKER) binary_message
           else dwt_extract_loop target_subband (i + 1) binary_message
      else binary_message)"
  by pat_completeness auto
termination
  by (relation "measure (\<lambda>(t, i, b). length t div dwt_step - i)") auto

declare dwt_extract_loop.simps [simp del]

definition dwt_decoding_error :: "error \<Rightarrow> str" where
  "dwt_decoding_error e = decoding_error_prefix @ str_error e"

definition dwt_extract_channel :: "real list \<Rightarrow> error + str" where
  "dwt_extract_channel channel_1 =
     (if channel_1 = [] then Inl LibraryError
      else
        let coeffs = wavedec channel_1 level;
            target_subband = coeffs ! subband_idx;
            binary_message = dwt_extract_loop target_subband 0 []
        in if length binary_message > 0
           then (case binary_to_text binary_message of
                   Inr text \<Rightarrow> Inr text
                 | Inl e \<Rightarrow> Inr (dwt_decoding_error e))
           else Inr extraction_failed)"

text \<open>
  The same lines on a channel of \<open>n\<close> NaN samples: the fractional part of a NaN
  coefficient is NaN, and \<open>frac_part >= 0.5\<close> is false for NaN, so that every position
  appends \<open>'0'\<close>.
\<close>

function dwt_extract_loop_nan :: "nat \<Rightarrow> nat \<Rightarrow> bits \<Rightarrow> bits" where
  "dwt_extract_loop_nan len_target_subband i binary_message =
     (if i < len_target_subband div dwt_step then
        let binary_message = binary_message @ [False]
        in if endswith binary_message END_MARKER
           then take (length binary_message - length END_MARKER) binary_message
           else dwt_extract_loop_nan len_target_subband (i + 1) binary_message
      else binary_message)"
  by pat_completeness auto
termination
  by (relation "measure (\<lambda>(t, i, b). t div dwt_step - i)") auto

declare dwt_extract_loop_nan.simps [simp del]

definition dwt_extract_nan :: "nat \<Rightarrow> error + str" where
  "dwt_extract_nan n =
     (if n = 0 then Inl LibraryError
      else
        let len_target_subband = length (wavedec (replicate n 0) level ! subband_idx);
            binary_message = dwt_extract_loop_nan len_target_subband 0 []
        in if length binary_message > 0
           then (case binary_to_text binary_message of
                   Inr text \<Rightarrow> Inr text
                 | Inl e \<Rightarrow> Inr (dwt_decoding_error e))
           else Inr extraction_failed)"

definition dwt_extract :: "files \<Rightarrow> path \<Rightarrow> error + str" where
  "dwt_extract fs audio_path =
     (case read_audio fs audio_path of
        Inl e \<Rightarrow> Inl e
      | Inr (sample_rate, audio_data) \<Rightarrow>
          (case first_channel audio_data of
             Samples channel_1 \<Rightarrow> dwt_extract_channel channel_1
           | NaNs n \<Rightarrow> dwt_extract_nan n))"

section \<open>Auxiliary definitions\<close>

text \<open>
  A two-dimensional array has at least one column: every frame holds a sample for
  channel 0.
\<close>

definition wf_audio :: "audio \<Rightarrow> bool" where
  "wf_audio a =
     (case a of Mono xs \<Rightarrow> True
      | Stereo rows \<Rightarrow> list_all (\<lambda>r. r \<noteq> []) rows
      | NaNMono n \<Rightarrow> True
      | NaNStereo rows \<Rightarrow> True)"

text \<open>
  What a call of \<open>embed\<close> that does not raise leaves behind, given the first channel
  that it computed: the output file holds the modified array as \<open>save_audio\<close> writes
  it, and the pair of the array read and the modified array is returned.
\<close>

definition embed_result ::
  "files \<Rightarrow> path \<Rightarrow> nat \<Rightarrow> audio \<Rightarrow> channel \<Rightarrow> files \<times> (error + audio \<times> audio)" where
  "embed_result fs output_path sample_rate audio_data modified_channel =
     (let modified_audio = with_first_channel audio_data modified_channel
      in (fs(output_path \<mapsto> Wav sample_rate (normalize_audio modified_audio)),
          Inr (audio_data, modified_audio)))"

text \<open>
  The three extraction loops differ only in how they read a bit. \<open>scan\<close> is the
  common loop over the bits that a loop reads in turn: append the bit, stop when the
  bits end with the marker, and cut the marker off.
\<close>

fun scan :: "bits \<Rightarrow> bits \<Rightarrow> bits" where
  "scan [] binary_message = binary_message"
| "scan (b # rest) binary_message =
     (let binary_message = binary_message @ [b]
      in if endswith binary_message END_MARKER
         then take (length binary_message - length END_MARKER) binary_message
         else scan rest binary_message)"

text \<open>The bits that the loops of the three strategies read, position by position.\<close>

definition dct_bits :: "real list \<Rightarrow> bits" where
  "dct_bits channel_1 =
     map (\<lambda>i. dct (take block_size (drop (i * block_size) channel_1)) ! target_coef
               > dct_threshold)
       [0 ..< length channel_1 div block_size]"

definition dft_bits :: "complex list \<Rightarrow> bits" where
  "dft_bits channel_dft =
     map (\<lambda>i. cmod (channel_dft ! (start_idx + i * dft_step)) > dft_threshold)
       [0 ..< nat (dft_max_bits (length channel_dft))]"

definition dwt_bits :: "real list \<Rightarrow> bits" where
  "dwt_bits target_subband =
     map (\<lambda>i. target_subband ! (i * dwt_step)
                 - real_of_int \<lfloor>target_subband ! (i * dwt_step)\<rfloor> \<ge> 1 / 2)
       [0 ..< length target_subband div dwt_step]"

text \<open>No prefix of the bits ends with the marker: the scan never finds it.\<close>

definition marker_free :: "bits \<Rightarrow> bool" where
  "marker_free bs = (\<forall>k \<in> {0 .. length bs}. \<not> endswith (take k bs) END_MARKER)"

text \<open>
  The framed bits of a message end with the marker. The scan returns the message bits
  when no shorter prefix of the framed bits ends with the marker as well.
\<close>

definition marker_only_at_end :: "bits \<Rightarrow> bool" where
  "marker_only_at_end framed =
     (\<forall>k \<in> {0 ..< length framed}. \<not> endswith (take k framed) END_MARKER)"

text \<open>
  Two intermediate values of \<open>embed\<close> in the frequency strategy: the spectrum after the
  embedding loop, and \<open>modified_channel\<close> before its final renormalisation.
\<close>

definition dft_embedded_spectrum :: "real list \<Rightarrow> str \<Rightarrow> complex list" where
  "dft_embedded_spectrum channel_0 message =
     (let peak = max_abs channel_0;
          binary_message = text_to_binary message @ END_MARKER;
          channel_1 = map (\<lambda>v. v / peak) channel_0;
          channel_dft = fft (map complex_of_real channel_1);
          max_amp = max_abs (map cmod channel_dft)
      in dft_embed_loop binary_message max_amp 0 channel_dft)"

definition dft_modified_channel :: "real list \<Rightarrow> str \<Rightarrow> real list" where
  "dft_modified_channel channel_0 message = map Re (ifft (dft_embedded_spectrum channel_0 message))"

section \<open>Properties of the message codec\<close>

lemma format_b_nonempty: "format_b n \<noteq> []"
  by (subst format_b.simps) simp

lemma length_format_b_le: "n < 2 ^ k \<Longrightarrow> 0 < k \<Longrightarrow> length (format_b n) \<le> k"
proof (induction n arbitrary: k rule: format_b.induct)
  case (1 n)
  show ?case
  proof (cases "n < 2")
    case True
    then show ?thesis using "1.prems" by (subst format_b.simps) simp
  next
    case False
    then obtain j where k: "k = Suc j" and j: "0 < j"
      using "1.prems" by (cases k; cases "k - 1") auto
    have "n div 2 < 2 ^ j" using "1.prems"(1) k by auto
    from "1.IH" [OF False this j] show ?thesis
      using False k by (subst format_b.simps) simp
  qed
qed

lemma length_format_b_gt: "2 ^ k \<le> n \<Longrightarrow> k < length (format_b n)"
proof (induction n arbitrary: k rule: format_b.induct)
  case (1 n)
  show ?case
  proof (cases "n < 2")
    case True
    have "k = 0"
    proof (rule ccontr)
      assume "k \<noteq> 0"
      then have "(2::nat) ^ 1 \<le> 2 ^ k" by (intro power_increasing) auto
      with "1.prems" True show False by simp
    qed
    then show ?thesis using True by (subst format_b.simps) simp
  next
    case False
    show ?thesis
    proof (cases k)
      case 0
      then show ?thesis using format_b_nonempty [of n] by (cases "format_b n") auto
    next
      case (Suc j)
      then have "2 ^ j \<le> n div 2" using "1.prems" by auto
      from "1.IH" [OF False this] show ?thesis
        using False Suc by (subst format_b.simps) simp
    qed
  qed
qed

lemma int2_append: "int2 (xs @ [b]) = 2 * int2 xs + (if b then 1 else 0)"
  by (simp add: int2_def)

lemma int2_format_b: "int2 (format_b n) = n"
proof (induction n rule: format_b.induct)
  case (1 n)
  show ?case
  proof (cases "n < 2")
    case True
    then show ?thesis by (subst format_b.simps) (auto simp: int2_def)
  next
    case False
    have "int2 (format_b n) = int2 (format_b (n div 2) @ [n mod 2 = 1])"
      using False by (subst format_b.simps) simp
    also have "\<dots> = 2 * (n div 2) + (if n mod 2 = 1 then 1 else 0)"
      using "1.IH" [OF False] by (simp add: int2_append)
    also have "\<dots> = n" by presburger
    finally show ?thesis .
  qed
qed

lemma int2_zeros: "int2 (replicate k False @ bs) = int2 bs"
proof -
  have "foldl (\<lambda>a b. 2 * a + (if b then 1 else 0)) (0::nat) (replicate k False) = 0"
    by (induction k) simp_all
  then show ?thesis by (simp add: int2_def)
qed

lemma int2_format_08b: "int2 (format_08b n) = n"
  by (simp add: format_08b_def int2_zeros int2_format_b)

lemma length_format_08b: "n < 256 \<Longrightarrow> length (format_08b n) = 8"
  using length_format_b_le [of n 8] by (simp add: format_08b_def)

lemma length_format_08b_wide: "256 \<le> n \<Longrightarrow> 8 < length (format_08b n)"
  using length_format_b_gt [of 8 n] by (simp add: format_08b_def)

lemma int2_less: "int2 bs < 2 ^ length bs"
proof (induction bs rule: rev_induct)
  case Nil
  then show ?case by (simp add: int2_def)
next
  case (snoc b bs)
  then show ?case by (simp add: int2_append)
qed

lemma length_text_to_binary:
  "\<forall>c \<in> set msg. c < 256 \<Longrightarrow> length (text_to_binary msg) = 8 * length msg"
  by (induction msg) (simp_all add: text_to_binary_def length_format_08b)

lemma text_to_binary_Cons: "text_to_binary (c # cs) = format_08b c @ text_to_binary cs"
  by (simp add: text_to_binary_def)

lemma range_step8_mult: "range_step8 (8 * n) = map (\<lambda>k. 8 * k) [0 ..< n]"
proof -
  have "(8 * n + 7) div 8 = n" by presburger
  then show ?thesis by (simp add: range_step8_def)
qed

lemma decode_chunks_offset:
  "length c = 8 \<Longrightarrow>
   decode_chunks (c @ rest) (map (\<lambda>i. i + 8) js) = decode_chunks rest js"
  by (induction js) (simp_all split: sum.splits)

lemma decode_chunks_shift:
  assumes "length c = 8"
  shows "decode_chunks (c @ rest) (map (\<lambda>k. 8 * k) [Suc 0 ..< Suc n])
           = decode_chunks rest (map (\<lambda>k. 8 * k) [0 ..< n])"
proof -
  have "map (\<lambda>k. 8 * k) [Suc 0 ..< Suc n] = map (\<lambda>k. 8 * k) (map Suc [0 ..< n])"
    by (simp only: map_Suc_upt)
  also have "\<dots> = map (\<lambda>i. i + 8) (map (\<lambda>k. 8 * k) [0 ..< n])"
    by simp
  finally show ?thesis
    by (simp only: decode_chunks_offset [OF assms])
qed

lemma decode_chunks_text_to_binary:
  "\<forall>c \<in> set msg. c < 256 \<Longrightarrow>
   decode_chunks (text_to_binary msg) (map (\<lambda>k. 8 * k) [0 ..< length msg]) = Inr msg"
proof (induction msg)
  case Nil
  then show ?case by simp
next
  case (Cons c cs)
  have len: "length (format_08b c) = 8" using Cons.prems by (simp add: length_format_08b)
  have split: "map (\<lambda>k. 8 * k) [0 ..< length (c # cs)]
                 = 0 # map (\<lambda>k. 8 * k) [Suc 0 ..< Suc (length cs)]"
    by (simp add: upt_conv_Cons del: upt_Suc)
  have hd: "chr (int2 (take 8 (drop 0 (text_to_binary (c # cs))))) = Inr c"
    using Cons.prems len by (simp add: text_to_binary_Cons int2_format_08b chr_def)
  have tl: "decode_chunks (text_to_binary (c # cs)) (map (\<lambda>k. 8 * k) [Suc 0 ..< Suc (length cs)])
              = Inr cs"
    unfolding text_to_binary_Cons decode_chunks_shift [OF len]
    using Cons.IH Cons.prems by simp
  show ?case
    unfolding split decode_chunks.simps hd tl by simp
qed

lemma decode_chunks_total:
  "decode_chunks binary js = Inr (map (\<lambda>i. int2 (take 8 (drop i binary))) js)"
proof (induction js)
  case Nil
  then show ?case by simp
next
  case (Cons i js)
  have "int2 (take 8 (drop i binary)) < 2 ^ length (take 8 (drop i binary))"
    by (rule int2_less)
  also have "\<dots> \<le> 2 ^ 8" by (intro power_increasing) auto
  finally have "chr (int2 (take 8 (drop i binary))) = Inr (int2 (take 8 (drop i binary)))"
    by (simp add: chr_def)
  then show ?case using Cons.IH by simp
qed

lemma binary_to_text_total:
  "binary_to_text b = Inr (map (\<lambda>k. int2 (take 8 (drop (8 * k) b))) [0 ..< length b div 8])"
proof -
  define m where "m = length b - length b mod 8"
  have m8: "m = 8 * (length b div 8)" unfolding m_def by presburger
  have cut: "(if length b mod 8 \<noteq> 0 then take m b else b) = take m b"
    unfolding m_def by simp
  have lenm: "length (take m b) = 8 * (length b div 8)"
    using m8 by (simp add: m_def)
  have "binary_to_text b = decode_chunks (take m b) (range_step8 (length (take m b)))"
    unfolding binary_to_text_def Let_def m_def [symmetric] cut ..
  also have "\<dots> = Inr (map (\<lambda>i. int2 (take 8 (drop i (take m b))))
                         (map (\<lambda>k. 8 * k) [0 ..< length b div 8]))"
    unfolding lenm range_step8_mult by (rule decode_chunks_total)
  also have "\<dots> = Inr (map (\<lambda>k. int2 (take 8 (drop (8 * k) b))) [0 ..< length b div 8])"
  proof -
    have "take 8 (drop (8 * k) (take m b)) = take 8 (drop (8 * k) b)"
      if "k < length b div 8" for k
    proof -
      have "8 * k + 8 \<le> m" using that m8 by simp
      then show ?thesis by (simp add: drop_take min_def)
    qed
    then show ?thesis by simp
  qed
  finally show ?thesis .
qed

text \<open>
  C9. For a text all of whose code points are at most 255, \<open>text_to_binary\<close> returns
  exactly 8 bits per character and \<open>binary_to_text\<close> decodes them back to the text.
\<close>

theorem codec_round_trip:
  assumes "\<forall>c \<in> set msg. c \<le> 255"
  shows "binary_to_text (text_to_binary msg) = Inr msg
         \<and> length (text_to_binary msg) = 8 * length msg"
proof -
  have small: "\<forall>c \<in> set msg. c < 256" using assms by auto
  have len: "length (text_to_binary msg) = 8 * length msg"
    by (rule length_text_to_binary [OF small])
  have "binary_to_text (text_to_binary msg)
          = decode_chunks (text_to_binary msg) (range_step8 (8 * length msg))"
    by (simp add: binary_to_text_def len)
  also have "\<dots> = Inr msg"
    unfolding range_step8_mult by (rule decode_chunks_text_to_binary [OF small])
  finally show ?thesis using len by simp
qed

theorem codec_round_trip_witness:
  "binary_to_text (text_to_binary [72, 105, 255]) = Inr [72, 105, 255]
   \<and> length (text_to_binary [72, 105, 255]) = 8 * length [72, 105, 255::nat]"
  using codec_round_trip [of "[72, 105, 255]"] by simp

text \<open>
  C6. A bit string whose length is not a multiple of 8 is decoded without an error: the
  trailing \<open>length mod 8\<close> bits are dropped and one character is decoded from each of
  the leading complete 8-bit groups. A 10-bit input decodes to the single character of
  its first 8 bits.
\<close>

theorem binary_to_text_alignment:
  assumes "length b mod 8 \<noteq> 0"
  shows "\<exists>t. binary_to_text b = Inr t
             \<and> binary_to_text (take (length b - length b mod 8) b) = Inr t
             \<and> length t = length b div 8
             \<and> (\<forall>k < length t. t ! k = int2 (take 8 (drop (8 * k) b)))
             \<and> (length b = 10 \<longrightarrow> t = [int2 (take 8 b)])"
proof -
  define m where "m = length b - length b mod 8"
  define t where "t = map (\<lambda>k. int2 (take 8 (drop (8 * k) b))) [0 ..< length b div 8]"
  have m8: "m = 8 * (length b div 8)" unfolding m_def by presburger
  have 1: "binary_to_text b = Inr t"
    unfolding t_def by (rule binary_to_text_total)
  have lenm: "length (take m b) div 8 = length b div 8"
    using m8 by (simp add: m_def)
  have "binary_to_text (take m b)
          = Inr (map (\<lambda>k. int2 (take 8 (drop (8 * k) (take m b)))) [0 ..< length b div 8])"
    unfolding binary_to_text_total lenm ..
  also have "\<dots> = Inr t"
  proof -
    have "take 8 (drop (8 * k) (take m b)) = take 8 (drop (8 * k) b)"
      if "k < length b div 8" for k
    proof -
      have "8 * k + 8 \<le> m" using that m8 by simp
      then show ?thesis by (simp add: drop_take min_def)
    qed
    then show ?thesis by (simp add: t_def)
  qed
  finally have 2: "binary_to_text (take m b) = Inr t" .
  have 3: "length t = length b div 8" by (simp add: t_def)
  have 4: "\<forall>k < length t. t ! k = int2 (take 8 (drop (8 * k) b))"
    by (simp add: t_def)
  have 5: "length b = 10 \<longrightarrow> t = [int2 (take 8 b)]"
    by (simp add: t_def)
  show ?thesis using 1 2 3 4 5 unfolding m_def by blast
qed

theorem binary_to_text_alignment_witness:
  "length [False, True, False, False, False, False, False, True, True, True] mod 8 \<noteq> 0
   \<and> binary_to_text [False, True, False, False, False, False, False, True, True, True]
       = Inr [65]
   \<and> binary_to_text [False, True, False, False, False, False, False, True] = Inr [65]"
proof -
  let ?b = "[False, True, False, False, False, False, False, True, True, True]"
  have h: "length ?b mod 8 \<noteq> 0" by simp
  from binary_to_text_alignment [OF h] obtain t where
    t: "binary_to_text ?b = Inr t" "length ?b = 10 \<longrightarrow> t = [int2 (take 8 ?b)]"
    by blast
  have "t = [65]" using t(2) by (simp add: int2_def)
  moreover have "binary_to_text [False, True, False, False, False, False, False, True] = Inr [65]"
    by (simp add: binary_to_text_total int2_def)
  ultimately show ?thesis using t(1) by simp
qed

text \<open>
  C5 as the specification states it: a text with a code point above 255 makes
  \<open>text_to_binary\<close> fail. The function has no failing branch; the character with code
  point 256 is encoded into nine bits.
\<close>

theorem text_to_binary_wide_counterexample:
  "text_to_binary [256] = [True, False, False, False, False, False, False, False, False]"
  by (simp add: text_to_binary_def format_08b_def format_b.simps)

text \<open>
  C5, amended. \<open>text_to_binary\<close> returns a bit string for every text. A character whose
  code point exceeds 255 contributes its binary digits unpadded and untruncated: more
  than 8 bits, whose value is the code point, between the bits of its neighbours.
\<close>

theorem text_to_binary_wide:
  assumes "255 < c"
  shows "text_to_binary (pre @ c # post)
           = text_to_binary pre @ format_08b c @ text_to_binary post
         \<and> format_08b c = format_b c
         \<and> 8 < length (format_08b c)
         \<and> int2 (format_08b c) = c"
proof -
  have "8 < length (format_b c)"
    using length_format_b_gt [of 8 c] assms by simp
  then have "format_08b c = format_b c" by (simp add: format_08b_def)
  moreover have "8 < length (format_08b c)"
    using assms by (intro length_format_08b_wide) simp
  moreover have "text_to_binary (pre @ c # post)
                   = text_to_binary pre @ format_08b c @ text_to_binary post"
    by (simp add: text_to_binary_def)
  ultimately show ?thesis using int2_format_08b [of c] by simp
qed

theorem text_to_binary_wide_witness:
  "(255::nat) < 1053
   \<and> text_to_binary [72, 1053, 105]
       = text_to_binary [72] @ format_08b 1053 @ text_to_binary [105]
   \<and> format_08b 1053
       = [True, False, False, False, False, False, True, True, True, False, True]
   \<and> int2 (format_08b 1053) = 1053"
proof -
  have h: "(255::nat) < 1053" by simp
  have f: "format_08b 1053
          = [True, False, False, False, False, False, True, True, True, False, True]"
    by (simp add: format_08b_def format_b.simps)
  note w = text_to_binary_wide [OF h, of "[72]" "[105]"]
  have a: "text_to_binary [72, 1053, 105]
             = text_to_binary [72] @ format_08b 1053 @ text_to_binary [105]"
    using w by simp
  have b: "int2 (format_08b 1053) = 1053"
    using w by blast
  show ?thesis using h a f b by blast
qed

section \<open>The cosine strategy leaves the blocks beyond the message alone\<close>

lemma length_dct [simp]: "length (dct x) = length x"
  by (simp add: dct_def Let_def)

lemma length_idct [simp]: "length (idct y) = length y"
  by (simp add: idct_def Let_def)

lemma dct_embed_loop_frame:
  assumes "length m = length c" "num_blocks * block_size \<le> length c"
    "length b \<le> num_blocks"
  shows "length (dct_embed_loop c b num_blocks i m) = length c
         \<and> drop (length b * block_size) (dct_embed_loop c b num_blocks i m)
             = drop (length b * block_size) m"
  using assms
proof (induction c b num_blocks i m rule: dct_embed_loop.induct)
  case (1 c b nb i m)
  show ?case
  proof (cases "i < length b")
    case False
    then show ?thesis using "1.prems" by (subst (1 2) dct_embed_loop.simps) simp
  next
    case True
    then have inb: "\<not> nb \<le> i" using "1.prems" by simp
    define s where "s = i * block_size"
    define blk where "blk = dct (take (s + block_size - s) (drop s c))"
    define blk' where "blk' = (if b ! i then blk[target_coef := dct_bit1_value]
                               else blk[target_coef := dct_bit0_value])"
    define m' where "m' = take s m @ idct blk' @ drop (s + block_size) m"
    have "Suc i * block_size \<le> length b * block_size"
      using True by (intro mult_le_mono1) simp
    then have e1: "s + block_size \<le> length b * block_size" by (simp add: s_def)
    have "length b * block_size \<le> nb * block_size"
      using "1.prems" by (intro mult_le_mono1) simp
    with e1 "1.prems" have e2: "s + block_size \<le> length c" by linarith
    have lb: "length (idct blk') = block_size"
      using e2 by (simp add: blk'_def blk_def)
    have lm': "length m' = length c"
      using e2 "1.prems"(1) lb by (simp add: m'_def)
    have dm': "drop (length b * block_size) m' = drop (length b * block_size) m"
      using e1 e2 "1.prems"(1) lb by (simp add: m'_def)
    have step: "dct_embed_loop c b nb i m = dct_embed_loop c b nb (i + 1) m'"
      using True inb
      by (subst dct_embed_loop.simps) (simp add: Let_def m'_def blk'_def blk_def s_def)
    have IH: "length (dct_embed_loop c b nb (i + 1) m') = length c
         \<and> drop (length b * block_size) (dct_embed_loop c b nb (i + 1) m')
             = drop (length b * block_size) m'"
      using "1.IH" [OF True inb refl refl refl refl refl refl refl, folded s_def, folded blk_def,
          folded blk'_def, folded m'_def, OF lm' "1.prems"(2,3)] .
    show ?thesis unfolding step using IH dm' by simp
  qed
qed

text \<open>
  C8. When the cosine strategy embeds a message, the returned channel has the length of
  the input and agrees with it sample for sample from index
  \<open>framed_bit_count * block_size\<close> on, the partial last block included; only the first
  \<open>framed_bit_count\<close> blocks are rewritten. The framed bit count is the length of the
  bit string of the message with the marker.
\<close>

theorem dct_embed_frame:
  assumes "dct_embed_channel channel_1 message = Inr modified_channel"
  shows "length modified_channel = length channel_1
         \<and> drop (length (text_to_binary message @ END_MARKER) * block_size) modified_channel
             = drop (length (text_to_binary message @ END_MARKER) * block_size) channel_1"
proof -
  define b where "b = text_to_binary message @ END_MARKER"
  define nb where "nb = length channel_1 div block_size"
  have fits: "length b \<le> nb"
    using assms by (simp add: dct_embed_channel_def Let_def b_def nb_def split: if_splits)
  have out: "modified_channel = dct_embed_loop channel_1 b nb 0 channel_1"
    using assms by (simp add: dct_embed_channel_def Let_def b_def nb_def split: if_splits)
  have "nb * block_size \<le> length channel_1"
    by (simp add: nb_def)
  from dct_embed_loop_frame [OF refl this fits, of 0] show ?thesis
    unfolding out b_def by simp
qed

theorem dct_embed_frame_witness:
  "drop (16 * 1024) (dct_embed_loop (replicate 17000 1) END_MARKER 16 0 (replicate 17000 1))
     = replicate 616 1"
proof -
  have e: "dct_embed_channel (replicate 17000 1) []
             = Inr (dct_embed_loop (replicate 17000 1) END_MARKER 16 0 (replicate 17000 1))"
    by (simp add: dct_embed_channel_def Let_def text_to_binary_def END_MARKER_def
        block_size_def)
  have l: "length (text_to_binary [] @ END_MARKER) * block_size = 16 * 1024"
    by (simp add: text_to_binary_def END_MARKER_def block_size_def)
  from dct_embed_frame [OF e] show ?thesis
    unfolding l by simp
qed

section \<open>The scan for the end marker\<close>

lemma dct_extract_loop_scan:
  "dct_extract_loop channel_1 num_blocks i acc
     = scan (map (\<lambda>i. dct (take block_size (drop (i * block_size) channel_1)) ! target_coef
                         > dct_threshold) [i ..< num_blocks]) acc"
proof (induction channel_1 num_blocks i acc rule: dct_extract_loop.induct)
  case (1 c nb i acc)
  show ?case
  proof (cases "i < nb")
    case False
    then show ?thesis by (subst dct_extract_loop.simps) simp
  next
    case True
    then have up: "[i ..< nb] = i # [i + 1 ..< nb]" by (simp add: upt_conv_Cons)
    show ?thesis
      using True "1.IH" [OF True refl refl refl refl refl refl]
      by (subst dct_extract_loop.simps) (simp add: up Let_def)
  qed
qed

lemma dft_extract_loop_scan:
  assumes "max_bits \<le> dft_max_bits (length channel_dft)"
  shows "dft_extract_loop channel_dft max_bits i acc
     = scan (map (\<lambda>i. cmod (channel_dft ! (start_idx + i * dft_step)) > dft_threshold)
               [i ..< nat max_bits]) acc"
  using assms
proof (induction channel_dft max_bits i acc rule: dft_extract_loop.induct)
  case (1 X mb i acc)
  show ?case
  proof (cases "int i < mb")
    case False
    then show ?thesis by (subst dft_extract_loop.simps) simp
  next
    case True
    then have up: "[i ..< nat mb] = i # [i + 1 ..< nat mb]" by (simp add: upt_conv_Cons)
    have "int i + 1 \<le> (int (length X) div 2 - int start_idx) div int dft_step"
      using True "1.prems" by (simp add: dft_max_bits_def)
    then have "2 * (int i + 1) \<le> int (length X) div 2 - 2000"
      by (simp add: dft_step_def start_idx_def) 
    then have inb: "\<not> length X div 2 \<le> start_idx + i * dft_step"
      by (simp add: dft_step_def start_idx_def)
    show ?thesis
      using True inb "1.IH" [OF True refl inb refl refl _ "1.prems"]
      by (subst dft_extract_loop.simps) (simp add: up Let_def)
  qed
qed

lemma dwt_extract_loop_scan:
  "dwt_extract_loop target_subband i acc
     = scan (map (\<lambda>i. target_subband ! (i * dwt_step)
                 - real_of_int \<lfloor>target_subband ! (i * dwt_step)\<rfloor> \<ge> 1 / 2)
               [i ..< length target_subband div dwt_step]) acc"
proof (induction target_subband i acc rule: dwt_extract_loop.induct)
  case (1 t i acc)
  show ?case
  proof (cases "i < length t div dwt_step")
    case False
    then show ?thesis by (subst dwt_extract_loop.simps) simp
  next
    case True
    then have up: "[i ..< length t div dwt_step] = i # [i + 1 ..< length t div dwt_step]"
      by (simp add: upt_conv_Cons)
    show ?thesis
      using True "1.IH" [OF True refl refl refl]
      by (subst dwt_extract_loop.simps) (simp add: up Let_def)
  qed
qed

lemma length_END_MARKER: "length END_MARKER = 16"
  by (simp add: END_MARKER_def)

lemma scan_none:
  "(\<forall>k. 0 < k \<and> k \<le> length bs \<longrightarrow> \<not> endswith (acc @ take k bs) END_MARKER)
   \<Longrightarrow> scan bs acc = acc @ bs"
proof (induction bs arbitrary: acc)
  case Nil
  then show ?case by simp
next
  case (Cons b bs)
  have first: "\<not> endswith (acc @ [b]) END_MARKER"
    using Cons.prems [rule_format, of 1] by simp
  have "\<forall>k. 0 < k \<and> k \<le> length bs \<longrightarrow> \<not> endswith ((acc @ [b]) @ take k bs) END_MARKER"
  proof (intro allI impI)
    fix k assume "0 < k \<and> k \<le> length bs"
    then show "\<not> endswith ((acc @ [b]) @ take k bs) END_MARKER"
      using Cons.prems [rule_format, of "Suc k"] by simp
  qed
  from Cons.IH [OF this] first show ?case by (simp add: Let_def)
qed

lemma scan_found:
  "0 < k \<Longrightarrow> k \<le> length bs \<Longrightarrow> endswith (acc @ take k bs) END_MARKER
   \<Longrightarrow> (\<forall>j. 0 < j \<and> j < k \<longrightarrow> \<not> endswith (acc @ take j bs) END_MARKER)
   \<Longrightarrow> scan bs acc = take (length acc + k - length END_MARKER) (acc @ take k bs)"
proof (induction bs arbitrary: acc k)
  case Nil
  then show ?case by simp
next
  case (Cons b bs)
  show ?case
  proof (cases "k = 1")
    case True
    then show ?thesis using Cons.prems by (simp add: Let_def)
  next
    case False
    then obtain k' where k: "k = Suc k'" and k': "0 < k'"
      using Cons.prems(1) by (cases k) auto
    have first: "\<not> endswith (acc @ [b]) END_MARKER"
      using Cons.prems(4) [rule_format, of 1] k k' by simp
    have a: "k' \<le> length bs" using Cons.prems(2) k by simp
    have b: "endswith ((acc @ [b]) @ take k' bs) END_MARKER"
      using Cons.prems(3) k by simp
    have c: "\<forall>j. 0 < j \<and> j < k' \<longrightarrow> \<not> endswith ((acc @ [b]) @ take j bs) END_MARKER"
    proof (intro allI impI)
      fix j assume "0 < j \<and> j < k'"
      then show "\<not> endswith ((acc @ [b]) @ take j bs) END_MARKER"
        using Cons.prems(4) [rule_format, of "Suc j"] k by simp
    qed
    from Cons.IH [OF k' a b c] first show ?thesis by (simp add: Let_def k)
  qed
qed

lemma scan_prefix: "\<exists>n. scan bs acc = take n (acc @ bs)"
proof (induction bs arbitrary: acc)
  case Nil
  show ?case by (rule exI [of _ "length acc"]) simp
next
  case (Cons b bs)
  show ?case
  proof (cases "endswith (acc @ [b]) END_MARKER")
    case True
    have "scan (b # bs) acc = take (length acc + 1 - length END_MARKER) (acc @ b # bs)"
      using True by (simp add: Let_def length_END_MARKER)
    then show ?thesis by blast
  next
    case False
    from Cons.IH [of "acc @ [b]"] obtain n where "scan bs (acc @ [b]) = take n ((acc @ [b]) @ bs)"
      by blast
    then have "scan (b # bs) acc = take n (acc @ b # bs)"
      using False by (simp add: Let_def)
    then show ?thesis by blast
  qed
qed

lemma scan_nth: "i < length (scan bs []) \<Longrightarrow> scan bs [] ! i = bs ! i"
proof -
  assume i: "i < length (scan bs [])"
  from scan_prefix [of bs "[]"] obtain n where n: "scan bs [] = take n bs" by auto
  then show ?thesis using i by simp
qed

lemma length_scan_le: "length (scan bs []) \<le> length bs"
proof -
  from scan_prefix [of bs "[]"] obtain n where n: "scan bs [] = take n bs" by auto
  then show ?thesis by simp
qed

lemma scan_marker_free: "marker_free bs \<Longrightarrow> scan bs [] = bs"
  using scan_none [of bs "[]"] by (simp add: marker_free_def)

lemma short_marker_free: "length bs < 16 \<Longrightarrow> marker_free bs"
  by (simp add: marker_free_def endswith_def length_END_MARKER)

lemma dft_extract_loop_bits:
  "dft_extract_loop channel_dft (dft_max_bits (length channel_dft)) 0 []
     = scan (dft_bits channel_dft) []"
  by (simp add: dft_extract_loop_scan dft_bits_def)

section \<open>The threshold of the frequency strategy\<close>

text \<open>
  C7. Every bit that the extraction loop of the frequency strategy decodes is 1 exactly
  when the magnitude of its spectral bin \<open>start_idx + i * step\<close> is strictly greater
  than the threshold; a magnitude equal to the threshold decodes as 0. The spectrum is
  arbitrary, so this covers a synthetic coefficient as well as the transform of a
  channel.
\<close>

theorem dft_threshold_boundary:
  assumes "i < length (dft_extract_loop channel_dft (dft_max_bits (length channel_dft)) 0 [])"
  shows "dft_extract_loop channel_dft (dft_max_bits (length channel_dft)) 0 [] ! i
           = (cmod (channel_dft ! (start_idx + i * dft_step)) > dft_threshold)
         \<and> (cmod (channel_dft ! (start_idx + i * dft_step)) = dft_threshold
              \<longrightarrow> \<not> dft_extract_loop channel_dft (dft_max_bits (length channel_dft)) 0 [] ! i)"
proof -
  let ?bs = "dft_bits channel_dft"
  have i: "i < length (scan ?bs [])"
    using assms by (simp add: dft_extract_loop_bits)
  then have ib: "i < length ?bs"
    using length_scan_le [of ?bs] by simp
  have "scan ?bs [] ! i = ?bs ! i" by (rule scan_nth [OF i])
  also have "\<dots> = (cmod (channel_dft ! (start_idx + i * dft_step)) > dft_threshold)"
    using ib by (simp add: dft_bits_def)
  finally show ?thesis by (simp add: dft_extract_loop_bits)
qed

lemma dft_bits_synthetic:
  "dft_bits ((replicate 4030 0)[2000 := 5 / 1000, 2002 := 1])
     = [False, True, False, False, False, False, False]"
proof -
  have n: "nat (dft_max_bits 4030) = 7"
    by (simp add: dft_max_bits_def start_idx_def dft_step_def)
  have u: "[0 ..< 7] = [0, 1, 2, 3, 4, 5, 6::nat]"
    by (simp add: upt_rec)
  show ?thesis
    by (simp add: dft_bits_def n u start_idx_def dft_step_def dft_threshold_def)
qed

theorem dft_threshold_boundary_witness:
  "cmod (((replicate 4030 0)[2000 := 5 / 1000, 2002 := 1]) ! (start_idx + 0 * dft_step))
     = dft_threshold
   \<and> dft_extract_loop ((replicate 4030 0)[2000 := 5 / 1000, 2002 := 1])
         (dft_max_bits (length ((replicate 4030 0)[2000 := 5 / 1000, 2002 := (1::complex)]))) 0 []
       ! 0 = False"
proof -
  let ?X = "(replicate 4030 0)[2000 := 5 / 1000, 2002 := (1::complex)]"
  have loop: "dft_extract_loop ?X (dft_max_bits (length ?X)) 0 []
                = [False, True, False, False, False, False, False]"
    unfolding dft_extract_loop_bits dft_bits_synthetic
    by (rule scan_marker_free) (simp add: short_marker_free)
  have h: "0 < length (dft_extract_loop ?X (dft_max_bits (length ?X)) 0 [])"
    unfolding loop by simp
  have m: "cmod (?X ! (start_idx + 0 * dft_step)) = dft_threshold"
    by (simp add: start_idx_def dft_threshold_def)
  from dft_threshold_boundary [OF h] m show ?thesis by blast
qed

section \<open>The divisor of the normalisation in the frequency strategy\<close>

lemma max_abs_zero_iff:
  assumes "xs \<noteq> []"
  shows "(max_abs xs = 0) = (\<forall>x \<in> set xs. x = 0)"
proof
  assume z: "max_abs xs = 0"
  show "\<forall>x \<in> set xs. x = 0"
  proof
    fix x assume "x \<in> set xs"
    then have "\<bar>x\<bar> \<le> Max (set (map abs xs))" by (intro Max_ge) auto
    then show "x = 0" using z by (simp add: max_abs_def)
  qed
next
  assume a: "\<forall>x \<in> set xs. x = 0"
  have "Max (set (map abs xs)) \<in> set (map abs xs)"
    using assms by (intro Max_in) auto
  then show "max_abs xs = 0" using a by (auto simp: max_abs_def)
qed

text \<open>
  C10. The frequency strategy divides the channel by its peak absolute amplitude
  without a guard. For a non-empty channel the divisor is nonzero exactly when some
  sample is nonzero; an all-zero channel makes it zero, and then the call that passes
  the capacity check ends with samples that are not numbers.
\<close>

theorem dft_normalization_divisor:
  assumes "channel_0 \<noteq> []"
  shows "(max_abs channel_0 \<noteq> 0) = (\<exists>x \<in> set channel_0. x \<noteq> 0)
         \<and> (dft_embed_channel channel_0 message = Inl NaNSamples)
             = ((\<forall>x \<in> set channel_0. x = 0)
                \<and> int (length (text_to_binary message @ END_MARKER))
                    \<le> dft_max_bits (length channel_0))"
proof -
  have 1: "(max_abs channel_0 \<noteq> 0) = (\<exists>x \<in> set channel_0. x \<noteq> 0)"
    using max_abs_zero_iff [OF assms] by blast
  have 2: "(dft_embed_channel channel_0 message = Inl NaNSamples)
             = (max_abs channel_0 = 0
                \<and> int (length (text_to_binary message @ END_MARKER))
                    \<le> dft_max_bits (length channel_0))"
    using assms by (auto simp: dft_embed_channel_def Let_def CapacityError_def)
  show ?thesis using 1 2 max_abs_zero_iff [OF assms] by blast
qed

theorem dft_normalization_divisor_witness:
  "max_abs [0, 3, - 4] \<noteq> 0 \<and> dft_embed_channel [0, 3, - 4] [] \<noteq> Inl NaNSamples
   \<and> max_abs [0, 0, 0] = 0"
proof -
  have a: "[0, 3, - 4 :: real] \<noteq> []" by simp
  have b: "[0, 0, 0 :: real] \<noteq> []" by simp
  have c: "\<exists>x \<in> set [0, 3, - 4 :: real]. x \<noteq> 0" by simp
  have d: "\<not> (\<exists>x \<in> set [0, 0, 0 :: real]. x \<noteq> 0)" by simp
  from dft_normalization_divisor [OF a, of "[]"] dft_normalization_divisor [OF b, of "[]"] c d
  show ?thesis by blast
qed

section \<open>The cosine transform is orthonormal\<close>

lemma odd_cos_sum:
  "2 * sin t * (\<Sum>n < N. cos ((2 * real n + 1) * t)) = sin (2 * real N * t)"
proof (induction N)
  case 0
  then show ?case by simp
next
  case (Suc N)
  define a where "a = (2 * real N + 1) * t"
  have p: "2 * real (Suc N) * t = a + t" and m: "2 * real N * t = a - t"
    by (simp_all add: a_def algebra_simps)
  have "2 * sin t * (\<Sum>n < Suc N. cos ((2 * real n + 1) * t))
          = 2 * sin t * (\<Sum>n < N. cos ((2 * real n + 1) * t)) + 2 * sin t * cos a"
    by (simp add: a_def algebra_simps)
  also have "\<dots> = sin (a - t) + 2 * sin t * cos a"
    using Suc.IH m by simp
  also have "\<dots> = sin (a + t)"
    by (simp add: sin_add sin_diff)
  finally show ?case using p by simp
qed

lemma odd_cos_sum_zero:
  assumes "0 < m" "m < 2 * N"
  shows "(\<Sum>n < N. cos ((2 * real n + 1) * (pi * real m / (2 * real N)))) = 0"
proof -
  define t where "t = pi * real m / (2 * real N)"
  have N: "0 < real N" using assms by simp
  have "0 < t" using assms N by (simp add: t_def)
  moreover have "t < pi"
  proof -
    have "real m < 2 * real N" using assms(2) by (metis of_nat_less_iff of_nat_mult of_nat_numeral)
    then have "real m / (2 * real N) < 1" using N by simp
    then have "pi * (real m / (2 * real N)) < pi * 1"
      by (intro mult_strict_left_mono) simp_all
    then show ?thesis by (simp add: t_def)
  qed
  ultimately have s: "0 < sin t" by (rule sin_gt_zero)
  have "2 * real N * t = real m * pi" using N by (simp add: t_def)
  then have "sin (2 * real N * t) = 0" by (simp add: sin_npi)
  with odd_cos_sum [of t N] s show ?thesis by (simp add: t_def)
qed

lemma dct_angle_odd: "dct_angle N k n = (2 * real n + 1) * (pi * real k / (2 * real N))"
  by (simp add: dct_angle_def)

lemma cos_product_sum:
  assumes "k < N" "j < k"
  shows "(\<Sum>n < N. cos (dct_angle N j n) * cos (dct_angle N k n)) = 0"
proof -
  have d: "0 < k - j" "k - j < 2 * N" and s: "0 < k + j" "k + j < 2 * N"
    using assms by auto
  have e: "cos (dct_angle N j n) * cos (dct_angle N k n)
        = (cos ((2 * real n + 1) * (pi * real (k - j) / (2 * real N)))
           + cos ((2 * real n + 1) * (pi * real (k + j) / (2 * real N)))) / 2" for n
  proof -
    have 1: "(2 * real n + 1) * (pi * real (k - j) / (2 * real N))
               = dct_angle N k n - dct_angle N j n"
      using assms by (simp add: dct_angle_odd of_nat_diff algebra_simps diff_divide_distrib)
    have 2: "(2 * real n + 1) * (pi * real (k + j) / (2 * real N))
               = dct_angle N k n + dct_angle N j n"
      by (simp add: dct_angle_odd algebra_simps add_divide_distrib)
    show ?thesis unfolding 1 2 by (simp add: cos_add cos_diff)
  qed
  have "(\<Sum>n < N. cos (dct_angle N j n) * cos (dct_angle N k n))
          = ((\<Sum>n < N. cos ((2 * real n + 1) * (pi * real (k - j) / (2 * real N))))
             + (\<Sum>n < N. cos ((2 * real n + 1) * (pi * real (k + j) / (2 * real N))))) / 2"
    unfolding e by (simp only: sum_divide_distrib [symmetric] sum.distrib)
  also have "\<dots> = 0"
    by (simp only: odd_cos_sum_zero [OF d] odd_cos_sum_zero [OF s]) simp
  finally show ?thesis .
qed

lemma cos_square_sum:
  assumes "k < N" "0 < k"
  shows "(\<Sum>n < N. cos (dct_angle N k n) * cos (dct_angle N k n)) = real N / 2"
proof -
  have s: "0 < k + k" "k + k < 2 * N" using assms by auto
  have e: "cos (dct_angle N k n) * cos (dct_angle N k n)
        = (1 + cos ((2 * real n + 1) * (pi * real (k + k) / (2 * real N)))) / 2" for n
  proof -
    have 2: "(2 * real n + 1) * (pi * real (k + k) / (2 * real N))
               = dct_angle N k n + dct_angle N k n"
      by (simp add: dct_angle_odd algebra_simps add_divide_distrib)
    have "cos (dct_angle N k n + dct_angle N k n)
            = 2 * (cos (dct_angle N k n) * cos (dct_angle N k n)) - 1"
      using cos_double_cos [of "dct_angle N k n"] by (simp add: power2_eq_square)
    then show ?thesis unfolding 2 by simp
  qed
  have "(\<Sum>n < N. cos (dct_angle N k n) * cos (dct_angle N k n))
          = ((\<Sum>n < N. 1)
             + (\<Sum>n < N. cos ((2 * real n + 1) * (pi * real (k + k) / (2 * real N))))) / 2"
    unfolding e by (simp only: sum_divide_distrib [symmetric] sum.distrib)
  also have "\<dots> = real N / 2"
    by (simp only: odd_cos_sum_zero [OF s]) simp
  finally show ?thesis .
qed

lemma dct_rows_orthonormal:
  assumes "j < N" "k < N"
  shows "(\<Sum>n < N. (dct_norm N j * cos (dct_angle N j n)) * (dct_norm N k * cos (dct_angle N k n)))
           = (if j = k then 1 else 0)"
proof -
  have N: "0 < real N" using assms by simp
  have r: "(\<Sum>n < N. (dct_norm N j * cos (dct_angle N j n)) * (dct_norm N k * cos (dct_angle N k n)))
         = dct_norm N j * dct_norm N k * (\<Sum>n < N. cos (dct_angle N j n) * cos (dct_angle N k n))"
    by (simp add: sum_distrib_left algebra_simps)
  consider "j < k" | "k < j" | "j = k" "k = 0" | "j = k" "0 < k" by linarith
  then show ?thesis
  proof cases
    case 1
    then show ?thesis unfolding r using cos_product_sum [OF assms(2) 1] by simp
  next
    case 2
    have "(\<Sum>n < N. cos (dct_angle N j n) * cos (dct_angle N k n))
            = (\<Sum>n < N. cos (dct_angle N k n) * cos (dct_angle N j n))"
      by (simp add: mult.commute)
    then show ?thesis unfolding r using cos_product_sum [OF assms(1) 2] 2 by simp
  next
    case 3
    then show ?thesis unfolding r using N by (simp add: dct_norm_def dct_angle_def)
  next
    case 4
    have "dct_norm N k * dct_norm N k = 2 / real N"
      using 4 N by (simp add: dct_norm_def)
    then show ?thesis unfolding r using 4 cos_square_sum [OF assms(2) 4(2)] N by simp
  qed
qed

lemma dct_idct_nth:
  assumes "k < length y"
  shows "dct (idct y) ! k = y ! k"
proof -
  define N where "N = length y"
  have k: "k < N" using assms by (simp add: N_def)
  have "dct (idct y) ! k
          = dct_norm N k * (\<Sum>n < N. (\<Sum>j < N. dct_norm N j * y ! j * cos (dct_angle N j n))
                                      * cos (dct_angle N k n))"
    using k by (simp add: dct_def idct_def Let_def N_def)
  also have "\<dots> = (\<Sum>n < N. \<Sum>j < N. y ! j * ((dct_norm N j * cos (dct_angle N j n))
                                         * (dct_norm N k * cos (dct_angle N k n))))"
    by (simp add: sum_distrib_left sum_distrib_right algebra_simps)
  also have "\<dots> = (\<Sum>j < N. \<Sum>n < N. y ! j * ((dct_norm N j * cos (dct_angle N j n))
                                         * (dct_norm N k * cos (dct_angle N k n))))"
    by (rule sum.swap)
  also have "\<dots> = (\<Sum>j < N. if j = k then y ! j else 0)"
  proof (rule sum.cong [OF refl])
    fix j assume "j \<in> {..<N}"
    then have j: "j < N" by simp
    show "(\<Sum>n < N. y ! j * ((dct_norm N j * cos (dct_angle N j n))
                               * (dct_norm N k * cos (dct_angle N k n))))
            = (if j = k then y ! j else 0)"
      unfolding sum_distrib_left [symmetric] dct_rows_orthonormal [OF j k] by simp
  qed
  also have "\<dots> = y ! k"
    using k by (simp add: sum.delta)
  finally show ?thesis .
qed

lemma dct_idct: "dct (idct y) = y"
  by (rule nth_equalityI) (simp_all add: dct_idct_nth length_dct length_idct)

section \<open>What the cosine strategy embeds is what it reads back\<close>

lemma take_drop_before:
  assumes "a + n \<le> s" "s \<le> length m"
  shows "take n (drop a (take s m @ rest)) = take n (drop a m)"
proof -
  have "drop a (take s m @ rest) = take (s - a) (drop a m) @ rest"
    using assms by (simp add: drop_take)
  moreover have "n \<le> length (take (s - a) (drop a m))"
    using assms by simp
  ultimately have "take n (drop a (take s m @ rest)) = take n (take (s - a) (drop a m))"
    by simp
  also have "\<dots> = take n (drop a m)"
    using assms by (simp add: min_def)
  finally show ?thesis .
qed

lemma dct_embed_loop_block:
  assumes "length m = length c" "num_blocks * block_size \<le> length c"
    "length b \<le> num_blocks" "t < length b"
  shows "take block_size (drop (t * block_size) (dct_embed_loop c b num_blocks i m))
           = (if i \<le> t
              then idct ((dct (take block_size (drop (t * block_size) c)))
                           [target_coef := (if b ! t then dct_bit1_value else dct_bit0_value)])
              else take block_size (drop (t * block_size) m))"
  using assms
proof (induction c b num_blocks i m rule: dct_embed_loop.induct)
  case (1 c b nb i m)
  show ?case
  proof (cases "i < length b")
    case False
    then show ?thesis using "1.prems" by (subst dct_embed_loop.simps) simp
  next
    case True
    then have inb: "\<not> nb \<le> i" using "1.prems" by simp
    define s where "s = i * block_size"
    define blk where "blk = dct (take (s + block_size - s) (drop s c))"
    define blk' where "blk' = (if b ! i then blk[target_coef := dct_bit1_value]
                               else blk[target_coef := dct_bit0_value])"
    define m' where "m' = take s m @ idct blk' @ drop (s + block_size) m"
    have "Suc i * block_size \<le> length b * block_size"
      using True by (intro mult_le_mono1) simp
    then have e1: "s + block_size \<le> length b * block_size" by (simp add: s_def)
    have "length b * block_size \<le> nb * block_size"
      using "1.prems" by (intro mult_le_mono1) simp
    with e1 "1.prems" have e2: "s + block_size \<le> length c" by linarith
    have lb: "length (idct blk') = block_size"
      using e2 by (simp add: blk'_def blk_def)
    have lm': "length m' = length c"
      using e2 "1.prems"(1) lb by (simp add: m'_def)
    have step: "dct_embed_loop c b nb i m = dct_embed_loop c b nb (i + 1) m'"
      using True inb
      by (subst dct_embed_loop.simps) (simp add: Let_def m'_def blk'_def blk_def s_def)
    note IH = "1.IH" [OF True inb refl refl refl refl refl refl refl, folded s_def,
        folded blk_def, folded blk'_def, folded m'_def, OF lm' "1.prems"(2,3,4)]
    consider "t < i" | "t = i" | "i < t" by linarith
    then show ?thesis
    proof cases
      case 1
      then have "Suc t * block_size \<le> i * block_size" by (intro mult_le_mono1) simp
      then have "t * block_size + block_size \<le> s" by (simp add: s_def)
      moreover have "s \<le> length m" using e2 "1.prems"(1) by simp
      ultimately have "take block_size (drop (t * block_size) m')
                   = take block_size (drop (t * block_size) m)"
        unfolding m'_def by (rule take_drop_before)
      then show ?thesis unfolding step IH using 1 by simp
    next
      case 2
      have "take block_size (drop (t * block_size) m') = idct blk'"
        using 2 e2 "1.prems"(1) lb by (simp add: m'_def s_def)
      then show ?thesis unfolding step IH using 2 by (simp add: blk'_def blk_def s_def)
    next
      case 3
      then show ?thesis unfolding step IH by simp
    qed
  qed
qed

lemma dct_bits_embedded:
  assumes "length b \<le> length c div block_size"
  shows "take (length b) (dct_bits (dct_embed_loop c b (length c div block_size) 0 c)) = b"
proof (rule nth_equalityI)
  let ?out = "dct_embed_loop c b (length c div block_size) 0 c"
  have nb: "length c div block_size * block_size \<le> length c" by simp
  have len: "length ?out = length c"
    using dct_embed_loop_frame [OF refl nb assms] by simp
  show "length (take (length b) (dct_bits ?out)) = length b"
    using assms by (simp add: dct_bits_def len)
  fix t assume "t < length (take (length b) (dct_bits ?out))"
  then have t: "t < length b" by simp
  then have tn: "t < length c div block_size" using assms by simp
  let ?new = "(dct (take block_size (drop (t * block_size) c)))
                [target_coef := (if b ! t then dct_bit1_value else dct_bit0_value)]"
  have "Suc t * block_size \<le> length c div block_size * block_size"
    using tn by (intro mult_le_mono1) simp
  then have "t * block_size + block_size \<le> length c div block_size * block_size"
    by (simp add: add.commute)
  then have "t * block_size + block_size \<le> length c" using nb by (rule order_trans)
  then have ln: "length ?new = block_size" by simp
  have "dct_bits ?out ! t
          = (dct (take block_size (drop (t * block_size) ?out)) ! target_coef > dct_threshold)"
    using tn by (simp add: dct_bits_def len)
  also have "\<dots> = (dct (idct ?new) ! target_coef > dct_threshold)"
    unfolding dct_embed_loop_block [OF refl nb assms t] by simp
  also have "\<dots> = (?new ! target_coef > dct_threshold)"
    by (simp only: dct_idct)
  also have "\<dots> = b ! t"
    using ln by (simp add: target_coef_def block_size_def dct_threshold_def
        dct_bit1_value_def dct_bit0_value_def)
  finally show "take (length b) (dct_bits ?out) ! t = b ! t"
    using t by simp
qed

lemma endswith_append_marker: "endswith (m @ END_MARKER) END_MARKER"
  by (simp add: endswith_def)

lemma scan_framed:
  assumes "take (length (m @ END_MARKER)) bs = m @ END_MARKER"
    and "marker_only_at_end (m @ END_MARKER)"
  shows "scan bs [] = m"
proof -
  let ?b = "m @ END_MARKER"
  have le: "length ?b \<le> length bs"
  proof (rule ccontr)
    assume "\<not> length ?b \<le> length bs"
    then have "length (take (length ?b) bs) < length ?b" by simp
    then show False using assms(1) by simp
  qed
  have pos: "0 < length ?b" by (simp add: length_END_MARKER)
  have found: "endswith ([] @ take (length ?b) bs) END_MARKER"
    using assms(1) endswith_append_marker [of m] by simp
  have early: "\<forall>j. 0 < j \<and> j < length ?b \<longrightarrow> \<not> endswith ([] @ take j bs) END_MARKER"
  proof (intro allI impI)
    fix j assume j: "0 < j \<and> j < length ?b"
    then have "take j bs = take j (take (length ?b) bs)" by (simp add: min_def)
    also have "\<dots> = take j ?b" using assms(1) by simp
    finally show "\<not> endswith ([] @ take j bs) END_MARKER"
      using assms(2) j by (simp add: marker_only_at_end_def)
  qed
  have "scan bs [] = take (length ([]::bits) + length ?b - length END_MARKER)
                       ([] @ take (length ?b) bs)"
    by (rule scan_found [OF pos le found early])
  also have "\<dots> = m" using assms(1) by simp
  finally show ?thesis .
qed

lemma text_to_binary_empty_iff: "(text_to_binary msg = []) = (msg = [])"
proof (cases msg)
  case Nil
  then show ?thesis by (simp add: text_to_binary_def)
next
  case (Cons c cs)
  have "format_08b c \<noteq> []" using format_b_nonempty [of c] by (simp add: format_08b_def)
  then show ?thesis using Cons by (simp add: text_to_binary_Cons)
qed

lemma binary_to_text_text_to_binary:
  assumes "\<forall>c \<in> set msg. c < 256"
  shows "binary_to_text (text_to_binary msg) = Inr msg"
proof -
  have "binary_to_text (text_to_binary msg)
          = decode_chunks (text_to_binary msg) (range_step8 (8 * length msg))"
    by (simp add: binary_to_text_def length_text_to_binary [OF assms])
  also have "\<dots> = Inr msg"
    unfolding range_step8_mult by (rule decode_chunks_text_to_binary [OF assms])
  finally show ?thesis .
qed

lemma dct_extract_loop_bits:
  "dct_extract_loop channel_1 (length channel_1 div block_size) 0 []
     = scan (dct_bits channel_1) []"
  by (simp add: dct_extract_loop_scan dct_bits_def)

lemma dct_extract_channel_scan:
  "dct_extract_channel channel_1 =
     (if scan (dct_bits channel_1) [] = [] then extraction_failed
      else (case binary_to_text (scan (dct_bits channel_1) []) of
              Inr t \<Rightarrow> t | Inl e \<Rightarrow> dct_decoding_error e (scan (dct_bits channel_1) [])))"
  unfolding dct_extract_channel_def Let_def dct_extract_loop_bits by simp

lemma dct_round_trip_bits:
  assumes "dct_embed_channel c msg = Inr out"
    and "marker_only_at_end (text_to_binary msg @ END_MARKER)"
  shows "scan (dct_bits out) [] = text_to_binary msg"
proof -
  let ?b = "text_to_binary msg @ END_MARKER"
  have fits: "length ?b \<le> length c div block_size"
    using assms(1) by (simp add: dct_embed_channel_def Let_def split: if_splits)
  have out: "out = dct_embed_loop c ?b (length c div block_size) 0 c"
    using assms(1) by (simp add: dct_embed_channel_def Let_def split: if_splits)
  have "take (length ?b) (dct_bits out) = ?b"
    unfolding out by (rule dct_bits_embedded [OF fits])
  then show ?thesis using assms(2) by (rule scan_framed)
qed

lemma dct_round_trip:
  assumes "dct_embed_channel c msg = Inr out"
    and "marker_only_at_end (text_to_binary msg @ END_MARKER)"
    and "\<forall>ch \<in> set msg. ch \<le> 255"
  shows "dct_extract_channel out = (if msg = [] then extraction_failed else msg)"
proof -
  have s: "scan (dct_bits out) [] = text_to_binary msg"
    by (rule dct_round_trip_bits [OF assms(1,2)])
  have "\<forall>ch \<in> set msg. ch < 256" using assms(3) by auto
  then have d: "binary_to_text (text_to_binary msg) = Inr msg"
    by (rule binary_to_text_text_to_binary)
  show ?thesis
    unfolding dct_extract_channel_scan s by (simp add: text_to_binary_empty_iff d)
qed

section \<open>The Haar wavelet transform reconstructs what it decomposes\<close>

lemma length_symmetric_pad: "length (symmetric_pad x) = 2 * ((length x + 1) div 2)"
  by (auto simp: symmetric_pad_def elim: evenE oddE)

lemma length_dwt_cA [simp]: "length (dwt_cA x) = (length x + 1) div 2"
  by (simp add: dwt_cA_def Let_def length_symmetric_pad)

lemma length_dwt_cD [simp]: "length (dwt_cD x) = (length x + 1) div 2"
  by (simp add: dwt_cD_def Let_def length_symmetric_pad)

lemma length_concat_pairs: "length (concat (map (\<lambda>i. [f i, g i]) [0 ..< n])) = 2 * n"
  by (induction n) simp_all

lemma length_idwt [simp]: "length (idwt a d) = 2 * length a"
  by (simp add: idwt_def length_concat_pairs)

lemma idwt_nth:
  assumes "i < length a"
  shows "idwt a d ! (2 * i) = (a ! i + d ! i) / sqrt 2"
    and "idwt a d ! (2 * i + 1) = (a ! i - d ! i) / sqrt 2"
proof -
  have "\<And>j. j < n \<Longrightarrow>
      concat (map (\<lambda>i. [(a ! i + d ! i) / sqrt 2, (a ! i - d ! i) / sqrt 2]) [0 ..< n]) ! (2 * j)
        = (a ! j + d ! j) / sqrt 2
      \<and> concat (map (\<lambda>i. [(a ! i + d ! i) / sqrt 2, (a ! i - d ! i) / sqrt 2]) [0 ..< n])
          ! (2 * j + 1) = (a ! j - d ! j) / sqrt 2" for n
  proof (induction n)
    case 0
    then show ?case by simp
  next
    case (Suc n)
    let ?f = "\<lambda>i. [(a ! i + d ! i) / sqrt 2, (a ! i - d ! i) / sqrt 2]"
    have len: "length (concat (map ?f [0 ..< n])) = 2 * n"
      by (rule length_concat_pairs)
    show ?case
    proof (cases "j < n")
      case True
      then show ?thesis using Suc.IH [OF True] len by (simp add: nth_append)
    next
      case False
      then have "j = n" using Suc.prems by simp
      then show ?thesis using len by (simp add: nth_append)
    qed
  qed
  from this [OF assms] show "idwt a d ! (2 * i) = (a ! i + d ! i) / sqrt 2"
    and "idwt a d ! (2 * i + 1) = (a ! i - d ! i) / sqrt 2"
    by (simp_all add: idwt_def)
qed

lemma even_pad: "even (length x) \<Longrightarrow> symmetric_pad x = x"
  by (simp add: symmetric_pad_def)

lemma dwt_idwt:
  assumes "length a = length d"
  shows "dwt_cA (idwt a d) = a" and "dwt_cD (idwt a d) = d"
proof -
  have p: "symmetric_pad (idwt a d) = idwt a d" by (simp add: even_pad)
  have s: "sqrt 2 * sqrt 2 = 2" by simp
  show "dwt_cA (idwt a d) = a"
  proof (rule nth_equalityI)
    show "length (dwt_cA (idwt a d)) = length a" by simp
    fix i assume "i < length (dwt_cA (idwt a d))"
    then have i: "i < length a" by simp
    have "dwt_cA (idwt a d) ! i = (idwt a d ! (2 * i) + idwt a d ! (2 * i + 1)) / sqrt 2"
      using i by (simp add: dwt_cA_def Let_def p)
    also have "\<dots> = (2 * a ! i / sqrt 2) / sqrt 2"
      unfolding idwt_nth [OF i] by (simp add: add_divide_distrib [symmetric])
    also have "\<dots> = a ! i" using s by (simp add: divide_divide_eq_left del: real_sqrt_mult_self)
    finally show "dwt_cA (idwt a d) ! i = a ! i" .
  qed
  show "dwt_cD (idwt a d) = d"
  proof (rule nth_equalityI)
    show "length (dwt_cD (idwt a d)) = length d" using assms by simp
    fix i assume "i < length (dwt_cD (idwt a d))"
    then have i: "i < length a" by simp
    have "dwt_cD (idwt a d) ! i = (idwt a d ! (2 * i) - idwt a d ! (2 * i + 1)) / sqrt 2"
      using i by (simp add: dwt_cD_def Let_def p)
    also have "\<dots> = (2 * d ! i / sqrt 2) / sqrt 2"
      unfolding idwt_nth [OF i] by (simp add: diff_divide_distrib [symmetric])
    also have "\<dots> = d ! i" using s by (simp add: divide_divide_eq_left del: real_sqrt_mult_self)
    finally show "dwt_cD (idwt a d) ! i = d ! i" .
  qed
qed

lemma symmetric_pad_nth: "i < length x \<Longrightarrow> symmetric_pad x ! i = x ! i"
  by (simp add: symmetric_pad_def nth_append)

lemma symmetric_pad_idem: "symmetric_pad (symmetric_pad x) = symmetric_pad x"
  by (rule even_pad) (simp add: length_symmetric_pad)

lemma dwt_pad: "dwt_cA (symmetric_pad x) = dwt_cA x" "dwt_cD (symmetric_pad x) = dwt_cD x"
  by (simp_all add: dwt_cA_def dwt_cD_def symmetric_pad_idem)

lemma dwt_nth:
  assumes "i < (length x + 1) div 2"
  shows "dwt_cA x ! i = (symmetric_pad x ! (2 * i) + symmetric_pad x ! (2 * i + 1)) / sqrt 2"
    and "dwt_cD x ! i = (symmetric_pad x ! (2 * i) - symmetric_pad x ! (2 * i + 1)) / sqrt 2"
  using assms by (simp_all add: dwt_cA_def dwt_cD_def Let_def length_symmetric_pad)

lemma idwt_dwt: "take (length y) (idwt (dwt_cA y) (dwt_cD y)) = y"
proof (rule nth_equalityI)
  show "length (take (length y) (idwt (dwt_cA y) (dwt_cD y))) = length y"
    by simp
  fix i assume "i < length (take (length y) (idwt (dwt_cA y) (dwt_cD y)))"
  then have i: "i < length y" by simp
  define j where "j = i div 2"
  have j: "j < (length y + 1) div 2" using i by (simp add: j_def)
  then have ja: "j < length (dwt_cA y)" by simp
  have s: "sqrt 2 * sqrt 2 = 2" by simp
  have e: "(u + v) / sqrt 2 / sqrt 2 = (u + v) / 2" for u v :: real
    using s by (simp add: divide_divide_eq_left del: real_sqrt_mult_self)
  show "take (length y) (idwt (dwt_cA y) (dwt_cD y)) ! i = y ! i"
  proof (cases "even i")
    case True
    then have i2: "i = 2 * j" by (auto simp: j_def)
    have "idwt (dwt_cA y) (dwt_cD y) ! (2 * j) = symmetric_pad y ! (2 * j)"
      unfolding idwt_nth(1) [OF ja] dwt_nth [OF j]
      by (simp add: add_divide_distrib [symmetric] e)
    then show ?thesis using i i2 by (simp add: symmetric_pad_nth)
  next
    case False
    then have i2: "i = 2 * j + 1" by (auto simp: j_def elim: oddE)
    have "idwt (dwt_cA y) (dwt_cD y) ! (2 * j + 1) = symmetric_pad y ! (2 * j + 1)"
      unfolding idwt_nth(2) [OF ja] dwt_nth [OF j]
      by (simp add: diff_divide_distrib [symmetric] e [of _ "0", simplified])
    then show ?thesis using i i2 by (simp add: symmetric_pad_nth)
  qed
qed

lemma dwt_cD_last_odd:
  assumes "odd (length x)"
  shows "last (dwt_cD x) = 0"
proof -
  obtain l where l: "length x = 2 * l + 1" using assms by (auto elim: oddE)
  have ne: "dwt_cD x \<noteq> []" using l by (simp flip: length_greater_0_conv)
  have x: "x \<noteq> []" using l by auto
  have "last (dwt_cD x) = dwt_cD x ! l"
    using l by (simp add: last_conv_nth [OF ne])
  also have "\<dots> = (symmetric_pad x ! (2 * l) - symmetric_pad x ! (2 * l + 1)) / sqrt 2"
    using l by (intro dwt_nth) simp
  also have "\<dots> = 0"
    using l assms x by (simp add: symmetric_pad_def nth_append last_conv_nth)
  finally show ?thesis .
qed

lemma pad_take_idwt:
  assumes "length a = length d" "length a = (m + 1) div 2" "odd m \<longrightarrow> last d = 0"
  shows "symmetric_pad (take m (idwt a d)) = idwt a d"
proof (cases "even m")
  case True
  then have "m = 2 * length a" using assms(2) by (auto elim: evenE)
  then show ?thesis by (simp add: even_pad)
next
  case False
  then obtain l where l: "m = 2 * l + 1" by (auto elim: oddE)
  then have la: "length a = l + 1" using assms(2) by simp
  let ?z = "idwt a d"
  have lz: "length ?z = m + 1" using la l by simp
  have dne: "d \<noteq> []" using assms(1) la by auto
  have "length d - 1 = l" using assms(1) la by simp
  then have "last d = d ! l" by (simp add: last_conv_nth [OF dne])
  then have d0: "d ! l = 0" using assms(3) False by simp
  have eq: "?z ! (2 * l) = ?z ! (2 * l + 1)"
    using idwt_nth [of l a d] la d0 by simp
  have odd_len: "odd (length (take m ?z))" using lz False by simp
  have ltk: "length (take m ?z) = m" using lz by simp
  have tk: "take m ?z \<noteq> []"
  proof
    assume "take m ?z = []"
    then have "length (take m ?z) = length ([]::real list)" by (rule arg_cong)
    with ltk l show False by simp
  qed
  have "symmetric_pad (take m ?z) = take m ?z @ [last (take m ?z)]"
    using odd_len by (simp add: symmetric_pad_def)
  also have "last (take m ?z) = ?z ! (2 * l)"
  proof -
    have "last (take m ?z) = take m ?z ! (length (take m ?z) - 1)"
      by (rule last_conv_nth [OF tk])
    also have "\<dots> = take m ?z ! (2 * l)" unfolding ltk using l by simp
    also have "\<dots> = ?z ! (2 * l)" using l by simp
    finally show ?thesis .
  qed
  also have "take m ?z @ [?z ! (2 * l)] = take m ?z @ [?z ! m]"
    using eq l by simp
  also have "\<dots> = take (Suc m) ?z"
    by (rule take_Suc_conv_app_nth [symmetric]) (use lz in simp)
  also have "\<dots> = ?z" using lz by simp
  finally show ?thesis .
qed

lemma dwt_take_idwt:
  assumes "length a = length d" "length a = (m + 1) div 2" "odd m \<longrightarrow> last d = 0"
  shows "dwt_cA (take m (idwt a d)) = a" and "dwt_cD (take m (idwt a d)) = d"
proof -
  have "dwt_cA (take m (idwt a d)) = dwt_cA (symmetric_pad (take m (idwt a d)))"
    by (simp only: dwt_pad)
  then show "dwt_cA (take m (idwt a d)) = a"
    unfolding pad_take_idwt [OF assms] by (simp only: dwt_idwt [OF assms(1)])
  have "dwt_cD (take m (idwt a d)) = dwt_cD (symmetric_pad (take m (idwt a d)))"
    by (simp only: dwt_pad)
  then show "dwt_cD (take m (idwt a d)) = d"
    unfolding pad_take_idwt [OF assms] by (simp only: dwt_idwt [OF assms(1)])
qed

lemma wavedec_nonempty: "wavedec y n \<noteq> []"
  by (induction n arbitrary: y) simp_all

lemma hd_wavedec: "hd (wavedec y n) = (dwt_cA ^^ n) y"
  by (induction n arbitrary: y) (simp_all add: wavedec_nonempty funpow_swap1)

lemma tl_wavedec_Suc: "tl (wavedec y (Suc n)) = tl (wavedec (dwt_cA y) n) @ [dwt_cD y]"
  by (simp add: wavedec_nonempty)

lemma wavedec_split:
  "wavedec y (n + k) = wavedec ((dwt_cA ^^ k) y) n @ tl (wavedec y k)"
proof (induction k arbitrary: y)
  case 0
  then show ?case by simp
next
  case (Suc k)
  have "wavedec y (n + Suc k) = wavedec (dwt_cA y) (n + k) @ [dwt_cD y]" by simp
  also have "\<dots> = wavedec ((dwt_cA ^^ k) (dwt_cA y)) n @ tl (wavedec (dwt_cA y) k) @ [dwt_cD y]"
    by (simp add: Suc.IH)
  also have "\<dots> = wavedec ((dwt_cA ^^ Suc k) y) n @ tl (wavedec y (Suc k))"
    by (simp only: tl_wavedec_Suc funpow_swap1 funpow.simps o_apply)
  finally show ?case .
qed

lemma waverec_loop_append:
  "waverec_loop a (ds1 @ ds2)
     = (case waverec_loop a ds1 of Inl e \<Rightarrow> Inl e | Inr r \<Rightarrow> waverec_loop r ds2)"
  by (induction ds1 arbitrary: a) (simp_all add: Let_def)

lemma waverec_loop_step:
  assumes "length r = length d \<or> length r = length d + 1"
  shows "waverec_loop r (d # ds) = waverec_loop (idwt (take (length d) r) d) ds"
proof -
  have t: "(if length r = length d + 1 then butlast r else r) = take (length d) r"
    using assms by (auto simp: butlast_conv_take)
  have l: "length (take (length d) r) = length d"
    using assms by auto
  show ?thesis
    unfolding waverec_loop.simps Let_def t using l by simp
qed

lemma half_twice: "2 * ((n + 1) div 2) = n \<or> 2 * ((n + 1) div 2) = n + 1" for n :: nat
  by presburger

lemma waverec_lower_levels:
  assumes "length r = length (hd (wavedec y n)) \<or> length r = length (hd (wavedec y n)) + 1"
  shows "\<exists>z. waverec_loop r (tl (wavedec y n)) = Inr z
           \<and> (length z = length y \<or> length z = length y + 1)
           \<and> wavedec (take (length y) z) n
               = take (length (hd (wavedec y n))) r # tl (wavedec y n)"
  using assms
proof (induction n arbitrary: y)
  case 0
  then show ?case by simp
next
  case (Suc n)
  have hd_eq: "hd (wavedec y (Suc n)) = hd (wavedec (dwt_cA y) n)"
    by (simp add: wavedec_nonempty)
  from Suc.IH [of "dwt_cA y"] Suc.prems obtain z1 where
    z1: "waverec_loop r (tl (wavedec (dwt_cA y) n)) = Inr z1"
    and lz1: "length z1 = length (dwt_cA y) \<or> length z1 = length (dwt_cA y) + 1"
    and w1: "wavedec (take (length (dwt_cA y)) z1) n
               = take (length (hd (wavedec (dwt_cA y) n))) r # tl (wavedec (dwt_cA y) n)"
    unfolding hd_eq by blast
  define a1 where "a1 = take (length (dwt_cA y)) z1"
  define z where "z = idwt a1 (dwt_cD y)"
  have la1: "length a1 = (length y + 1) div 2"
    using lz1 by (auto simp: a1_def)
  have step: "waverec_loop z1 [dwt_cD y] = Inr z"
  proof -
    have "length z1 = length (dwt_cD y) \<or> length z1 = length (dwt_cD y) + 1"
      using lz1 by simp
    from waverec_loop_step [OF this, of "[]"] show ?thesis
      by (simp add: z_def a1_def)
  qed
  have 1: "waverec_loop r (tl (wavedec y (Suc n))) = Inr z"
    unfolding tl_wavedec_Suc waverec_loop_append z1 using step by simp
  have 2: "length z = length y \<or> length z = length y + 1"
    using half_twice [of "length y"] by (simp add: z_def la1)
  have eq: "length a1 = length (dwt_cD y)" by (simp add: la1)
  have odd0: "odd (length y) \<longrightarrow> last (dwt_cD y) = 0"
    by (simp add: dwt_cD_last_odd)
  have "wavedec (take (length y) z) (Suc n)
          = wavedec (dwt_cA (take (length y) z)) n @ [dwt_cD (take (length y) z)]"
    by simp
  also have "\<dots> = wavedec a1 n @ [dwt_cD y]"
    unfolding z_def by (simp only: dwt_take_idwt [OF eq la1 odd0])
  also have "\<dots> = take (length (hd (wavedec y (Suc n)))) r # tl (wavedec y (Suc n))"
    unfolding a1_def w1 hd_eq tl_wavedec_Suc by simp
  finally show ?case using 1 2 by blast
qed

lemma wavedec_level:
  "wavedec c level
     = [dwt_cA (dwt_cA ((dwt_cA ^^ 3) c)), dwt_cD (dwt_cA ((dwt_cA ^^ 3) c)),
        dwt_cD ((dwt_cA ^^ 3) c)] @ tl (wavedec c 3)"
proof -
  have "wavedec c level = wavedec c (2 + 3)" by (simp add: level_def)
  also have "\<dots> = wavedec ((dwt_cA ^^ 3) c) 2 @ tl (wavedec c 3)"
    by (rule wavedec_split)
  also have "wavedec ((dwt_cA ^^ 3) c) 2
               = [dwt_cA (dwt_cA ((dwt_cA ^^ 3) c)), dwt_cD (dwt_cA ((dwt_cA ^^ 3) c)),
                  dwt_cD ((dwt_cA ^^ 3) c)]"
    by (simp add: numeral_2_eq_2)
  finally show ?thesis .
qed

lemma target_subband: "wavedec c level ! subband_idx = dwt_cD ((dwt_cA ^^ 3) c)"
  by (simp add: wavedec_level subband_idx_def)

lemma dwt_subband_round_trip:
  assumes "length s' = length (wavedec c level ! subband_idx)"
    and "odd (length ((dwt_cA ^^ 3) c)) \<longrightarrow> last s' = 0"
  shows "\<exists>z. waverec ((wavedec c level)[subband_idx := s']) = Inr z
           \<and> (length z = length c \<or> length z = length c + 1)
           \<and> wavedec (take (length c) z) level ! subband_idx = s'"
proof -
  define A3 where "A3 = (dwt_cA ^^ 3) c"
  define A4 where "A4 = dwt_cA A3"
  have ls: "length s' = (length A3 + 1) div 2"
    using assms(1) by (simp add: target_subband A3_def)
  have co: "(wavedec c level)[subband_idx := s']
              = [dwt_cA A4, dwt_cD A4, s'] @ tl (wavedec c 3)"
    by (simp add: wavedec_level subband_idx_def A3_def A4_def)
  have s1: "waverec_loop (dwt_cA A4) (dwt_cD A4 # s' # tl (wavedec c 3))
              = waverec_loop (idwt (dwt_cA A4) (dwt_cD A4)) (s' # tl (wavedec c 3))"
  proof -
    have "length (dwt_cA A4) = length (dwt_cD A4) \<or> length (dwt_cA A4) = length (dwt_cD A4) + 1"
      by simp
    from waverec_loop_step [OF this] show ?thesis by simp
  qed
  have s2: "waverec_loop (idwt (dwt_cA A4) (dwt_cD A4)) (s' # tl (wavedec c 3))
              = waverec_loop (idwt A4 s') (tl (wavedec c 3))"
  proof -
    have l4: "length s' = length A4" by (simp add: ls A4_def)
    have "length (idwt (dwt_cA A4) (dwt_cD A4)) = length s'
          \<or> length (idwt (dwt_cA A4) (dwt_cD A4)) = length s' + 1"
      using half_twice [of "length A4"] by (simp add: l4)
    from waverec_loop_step [OF this] show ?thesis
      unfolding l4 idwt_dwt .
  qed
  have r: "length (idwt A4 s') = length (hd (wavedec c 3))
           \<or> length (idwt A4 s') = length (hd (wavedec c 3)) + 1"
    using half_twice [of "length A3"] by (simp add: hd_wavedec A4_def A3_def)
  from waverec_lower_levels [OF r] obtain z where
    z: "waverec_loop (idwt A4 s') (tl (wavedec c 3)) = Inr z"
    and lz: "length z = length c \<or> length z = length c + 1"
    and w: "wavedec (take (length c) z) 3
              = take (length (hd (wavedec c 3))) (idwt A4 s') # tl (wavedec c 3)"
    by blast
  have "waverec ((wavedec c level)[subband_idx := s'])
          = waverec_loop (dwt_cA A4) (dwt_cD A4 # s' # tl (wavedec c 3))"
    unfolding co waverec_def by (simp del: waverec_loop.simps)
  also note s1
  also note s2
  also note z
  finally have 1: "waverec ((wavedec c level)[subband_idx := s']) = Inr z" .
  have "(dwt_cA ^^ 3) (take (length c) z) = hd (wavedec (take (length c) z) 3)"
    by (simp only: hd_wavedec)
  also have "\<dots> = take (length A3) (idwt A4 s')"
    unfolding w by (simp add: hd_wavedec A3_def)
  finally have a3: "(dwt_cA ^^ 3) (take (length c) z) = take (length A3) (idwt A4 s')" .
  have eq: "length A4 = length s'" by (simp add: ls A4_def)
  have la: "length A4 = (length A3 + 1) div 2" by (simp add: A4_def)
  have od: "odd (length A3) \<longrightarrow> last s' = 0" using assms(2) by (simp add: A3_def)
  have "wavedec (take (length c) z) level ! subband_idx = dwt_cD (take (length A3) (idwt A4 s'))"
    unfolding target_subband a3 ..
  also have "\<dots> = s'" by (rule dwt_take_idwt(2) [OF eq la od])
  finally show ?thesis using 1 lz by blast
qed

section \<open>What the wavelet strategy embeds is what it reads back\<close>

lemma dwt_embed_loop_inv:
  assumes "length b \<le> length s div dwt_step"
  shows "length (dwt_embed_loop b i s) = length s
         \<and> (\<forall>j < length s. dwt_embed_loop b i s ! j =
              (if dwt_step dvd j \<and> i \<le> j div dwt_step \<and> j div dwt_step < length b
               then real_of_int \<lfloor>s ! j\<rfloor> + (if b ! (j div dwt_step) then bit1_frac else bit0_frac)
               else s ! j))"
  using assms
proof (induction b i s rule: dwt_embed_loop.induct)
  case (1 b i s)
  show ?case
  proof (cases "i < length b")
    case False
    then show ?thesis by (subst (1 2) dwt_embed_loop.simps) simp
  next
    case True
    have "Suc i * dwt_step \<le> length b * dwt_step"
      using True by (intro mult_le_mono1) simp
    moreover have "length b * dwt_step \<le> length s"
      using "1.prems" by (simp add: dwt_step_def)
    ultimately have inb: "i * dwt_step + dwt_step \<le> length s" by simp
    then have nobreak: "\<not> length s \<le> i * dwt_step" by (simp add: dwt_step_def)
    define s' where "s' = (if b ! i
        then s[i * dwt_step := real_of_int \<lfloor>s ! (i * dwt_step)\<rfloor> + bit1_frac]
        else s[i * dwt_step := real_of_int \<lfloor>s ! (i * dwt_step)\<rfloor> + bit0_frac])"
    have ls': "length s' = length s" by (simp add: s'_def)
    have step: "dwt_embed_loop b i s = dwt_embed_loop b (i + 1) s'"
      using True nobreak by (subst dwt_embed_loop.simps) (simp add: Let_def s'_def)
    have pre: "length b \<le> length s' div dwt_step" using "1.prems" ls' by simp
    note IH = "1.IH" [OF True nobreak refl refl refl, folded s'_def, OF pre]
    have at: "s' ! (i * dwt_step)
                = real_of_int \<lfloor>s ! (i * dwt_step)\<rfloor> + (if b ! i then bit1_frac else bit0_frac)"
      using inb by (simp add: s'_def dwt_step_def)
    have other: "s' ! j = s ! j" if "j \<noteq> i * dwt_step" for j
      using that by (simp add: s'_def)
    show ?thesis
    proof (intro conjI allI impI)
      show "length (dwt_embed_loop b i s) = length s"
        unfolding step using IH ls' by simp
    next
      fix j assume j: "j < length s"
      then have j': "j < length s'" by (simp add: ls')
      have r: "dwt_embed_loop b (i + 1) s' ! j =
              (if dwt_step dvd j \<and> i + 1 \<le> j div dwt_step \<and> j div dwt_step < length b
               then real_of_int \<lfloor>s' ! j\<rfloor> + (if b ! (j div dwt_step) then bit1_frac else bit0_frac)
               else s' ! j)"
        using IH j' by blast
      show "dwt_embed_loop b i s ! j =
              (if dwt_step dvd j \<and> i \<le> j div dwt_step \<and> j div dwt_step < length b
               then real_of_int \<lfloor>s ! j\<rfloor> + (if b ! (j div dwt_step) then bit1_frac else bit0_frac)
               else s ! j)"
      proof (cases "j = i * dwt_step")
        case True
        then have "j div dwt_step = i" "dwt_step dvd j" by (simp_all add: dwt_step_def)
        then show ?thesis unfolding step r using True at \<open>i < length b\<close> by simp
      next
        case False
        have ne: "\<not> (dwt_step dvd j \<and> j div dwt_step = i)"
        proof
          assume "dwt_step dvd j \<and> j div dwt_step = i"
          then have "j = i * dwt_step" by auto
          with False show False by simp
        qed
        have c: "(dwt_step dvd j \<and> i + 1 \<le> j div dwt_step \<and> j div dwt_step < length b)
                 = (dwt_step dvd j \<and> i \<le> j div dwt_step \<and> j div dwt_step < length b)"
          using ne by (cases "dwt_step dvd j") (simp_all, linarith)
        show ?thesis unfolding step r other [OF False] c ..
      qed
    qed
  qed
qed

lemma dwt_embed_loop_length:
  "length b \<le> length s div dwt_step \<Longrightarrow> length (dwt_embed_loop b 0 s) = length s"
  using dwt_embed_loop_inv [of b s 0] by simp

lemma dwt_embed_loop_last:
  assumes "length b \<le> length s div dwt_step" "s \<noteq> []"
  shows "last (dwt_embed_loop b 0 s) = last s"
proof -
  let ?j = "length s - 1"
  have j: "?j < length s" using assms(2) by simp
  have ne: "dwt_embed_loop b 0 s \<noteq> []"
    using dwt_embed_loop_length [OF assms(1)] assms(2) by auto
  have "\<not> (dwt_step dvd ?j \<and> ?j div dwt_step < length b)"
  proof
    assume a: "dwt_step dvd ?j \<and> ?j div dwt_step < length b"
    then obtain k where k: "?j = dwt_step * k" by (auto elim: dvdE)
    then have "k < length b" using a by (simp add: dwt_step_def)
    then have "k + 1 \<le> length s div dwt_step" using assms(1) by simp
    then have "(k + 1) * dwt_step \<le> length s div dwt_step * dwt_step"
      by (rule mult_le_mono1)
    also have "\<dots> \<le> length s" by simp
    finally have "?j + dwt_step \<le> length s" using k by (simp add: mult.commute)
    then show False using j by (simp add: dwt_step_def)
  qed
  then have "dwt_embed_loop b 0 s ! ?j = s ! ?j"
    using dwt_embed_loop_inv [OF assms(1), of 0] j by auto
  then show ?thesis
    using dwt_embed_loop_length [OF assms(1)] by (simp add: last_conv_nth ne assms(2))
qed

lemma dwt_bits_embedded:
  assumes "length b \<le> length s div dwt_step"
  shows "take (length b) (dwt_bits (dwt_embed_loop b 0 s)) = b"
proof (rule nth_equalityI)
  let ?s' = "dwt_embed_loop b 0 s"
  have len: "length ?s' = length s" by (rule dwt_embed_loop_length [OF assms])
  show "length (take (length b) (dwt_bits ?s')) = length b"
    using assms by (simp add: dwt_bits_def len)
  fix t assume "t < length (take (length b) (dwt_bits ?s'))"
  then have t: "t < length b" by simp
  then have td: "t < length s div dwt_step" using assms by simp
  then have ts: "t * dwt_step < length s" by (simp add: dwt_step_def)
  have v: "?s' ! (t * dwt_step)
             = real_of_int \<lfloor>s ! (t * dwt_step)\<rfloor> + (if b ! t then bit1_frac else bit0_frac)"
    using dwt_embed_loop_inv [OF assms, of 0] ts t by (simp add: dwt_step_def)
  have "dwt_bits ?s' ! t
          = (?s' ! (t * dwt_step) - real_of_int \<lfloor>?s' ! (t * dwt_step)\<rfloor> \<ge> 1 / 2)"
    using td by (simp add: dwt_bits_def len)
  also have "\<dots> = b ! t"
    unfolding v by (simp add: bit1_frac_def bit0_frac_def)
  finally show "take (length b) (dwt_bits ?s') ! t = b ! t"
    using t by simp
qed

lemma dwt_extract_loop_bits:
  "dwt_extract_loop target_subband 0 [] = scan (dwt_bits target_subband) []"
  by (simp add: dwt_extract_loop_scan dwt_bits_def)

lemma dwt_extract_channel_scan:
  assumes "channel_1 \<noteq> []"
  shows "dwt_extract_channel channel_1 =
     (if scan (dwt_bits (wavedec channel_1 level ! subband_idx)) [] = []
      then Inr extraction_failed
      else (case binary_to_text (scan (dwt_bits (wavedec channel_1 level ! subband_idx)) []) of
              Inr t \<Rightarrow> Inr t | Inl e \<Rightarrow> Inr (dwt_decoding_error e)))"
  unfolding dwt_extract_channel_def Let_def dwt_extract_loop_bits using assms by simp

lemma dwt_embed_channel_result:
  assumes "c \<noteq> []"
    and "length (text_to_binary msg @ END_MARKER)
           \<le> length (wavedec c level ! subband_idx) div dwt_step"
  shows "\<exists>out. dwt_embed_channel c msg = Inr out \<and> length out = length c
           \<and> wavedec out level ! subband_idx
               = dwt_embed_loop (text_to_binary msg @ END_MARKER) 0
                   (wavedec c level ! subband_idx)"
proof -
  let ?b = "text_to_binary msg @ END_MARKER"
  let ?s = "wavedec c level ! subband_idx"
  let ?s' = "dwt_embed_loop ?b 0 ?s"
  have ls: "length ?s' = length ?s" by (rule dwt_embed_loop_length [OF assms(2)])
  have od: "odd (length ((dwt_cA ^^ 3) c)) \<longrightarrow> last ?s' = 0"
  proof
    assume o: "odd (length ((dwt_cA ^^ 3) c))"
    then have "length (dwt_cD ((dwt_cA ^^ 3) c)) \<noteq> 0" by (auto elim: oddE)
    then have ne: "?s \<noteq> []" by (simp add: target_subband del: length_dwt_cD)
    have "last ?s' = last ?s" by (rule dwt_embed_loop_last [OF assms(2) ne])
    also have "\<dots> = 0" unfolding target_subband by (rule dwt_cD_last_odd [OF o])
    finally show "last ?s' = 0" .
  qed
  from dwt_subband_round_trip [OF ls od] obtain z where
    z: "waverec ((wavedec c level)[subband_idx := ?s']) = Inr z"
    and lz: "length z = length c \<or> length z = length c + 1"
    and w: "wavedec (take (length c) z) level ! subband_idx = ?s'"
    by blast
  have "dwt_embed_channel c msg = Inr (take (length c) z)"
    using assms by (simp add: dwt_embed_channel_def Let_def z)
  moreover have "length (take (length c) z) = length c" using lz by auto
  ultimately show ?thesis using w by blast
qed

lemma dwt_embed_channel_fits:
  assumes "dwt_embed_channel c msg = Inr out"
  shows "c \<noteq> []"
    and "length (text_to_binary msg @ END_MARKER)
           \<le> length (wavedec c level ! subband_idx) div dwt_step"
  using assms by (auto simp: dwt_embed_channel_def Let_def split: if_splits)

lemma dwt_round_trip_bits:
  assumes "dwt_embed_channel c msg = Inr out"
    and "marker_only_at_end (text_to_binary msg @ END_MARKER)"
  shows "out \<noteq> []"
    and "scan (dwt_bits (wavedec out level ! subband_idx)) [] = text_to_binary msg"
proof -
  let ?b = "text_to_binary msg @ END_MARKER"
  note f = dwt_embed_channel_fits [OF assms(1)]
  from dwt_embed_channel_result [OF f] assms(1) have
    lo: "length out = length c"
    and w: "wavedec out level ! subband_idx = dwt_embed_loop ?b 0 (wavedec c level ! subband_idx)"
    by auto
  show "out \<noteq> []" using lo f(1) by auto
  have "take (length ?b) (dwt_bits (wavedec out level ! subband_idx)) = ?b"
    unfolding w by (rule dwt_bits_embedded [OF f(2)])
  then show "scan (dwt_bits (wavedec out level ! subband_idx)) [] = text_to_binary msg"
    using assms(2) by (rule scan_framed)
qed

lemma dwt_round_trip:
  assumes "dwt_embed_channel c msg = Inr out"
    and "marker_only_at_end (text_to_binary msg @ END_MARKER)"
    and "\<forall>ch \<in> set msg. ch \<le> 255"
  shows "dwt_extract_channel out = Inr (if msg = [] then extraction_failed else msg)"
proof -
  note r = dwt_round_trip_bits [OF assms(1,2)]
  have "\<forall>ch \<in> set msg. ch < 256" using assms(3) by auto
  then have d: "binary_to_text (text_to_binary msg) = Inr msg"
    by (rule binary_to_text_text_to_binary)
  show ?thesis
    unfolding dwt_extract_channel_scan [OF r(1)] r(2)
    by (simp add: text_to_binary_empty_iff d)
qed

section \<open>Silent channels\<close>

lemma dct_zero: "dct (replicate n 0) = replicate n 0"
  by (rule nth_equalityI) (simp_all add: dct_def Let_def)

lemma fft_zero: "fft (replicate n 0) = replicate n 0"
  by (rule nth_equalityI) (simp_all add: fft_def Let_def)

lemma dwt_zero:
  "dwt_cA (replicate n 0) = replicate ((n + 1) div 2) 0"
  "dwt_cD (replicate n 0) = replicate ((n + 1) div 2) 0"
proof -
  have p: "symmetric_pad (replicate n 0) = replicate (2 * ((n + 1) div 2)) (0::real)"
  proof (cases "even n")
    case True
    then show ?thesis by (auto simp: symmetric_pad_def elim: evenE)
  next
    case False
    then obtain k where k: "n = 2 * k + 1" by (auto elim: oddE)
    have "replicate n (0::real) @ [0] = replicate (Suc n) 0"
      by (simp add: replicate_append_same)
    then show ?thesis using False k by (simp add: symmetric_pad_def)
  qed
  show "dwt_cA (replicate n 0) = replicate ((n + 1) div 2) 0"
    by (rule nth_equalityI) (simp_all add: dwt_cA_def Let_def p)
  show "dwt_cD (replicate n 0) = replicate ((n + 1) div 2) 0"
    by (rule nth_equalityI) (simp_all add: dwt_cD_def Let_def p)
qed

lemma dct_bits_zero: "dct_bits (replicate n 0) = replicate (n div block_size) False"
proof (rule nth_equalityI)
  show "length (dct_bits (replicate n 0)) = length (replicate (n div block_size) False)"
    by (simp add: dct_bits_def)
  fix i assume "i < length (dct_bits (replicate n 0))"
  then have i: "i < n div block_size" by (simp add: dct_bits_def)
  then have "Suc i * block_size \<le> n div block_size * block_size"
    by (intro mult_le_mono1) simp
  also have "\<dots> \<le> n" by simp
  finally have "i * block_size + block_size \<le> n" by (simp add: add.commute)
  then have "take block_size (drop (i * block_size) (replicate n (0::real)))
               = replicate block_size 0"
    by (simp add: min_def)
  then show "dct_bits (replicate n 0) ! i = replicate (n div block_size) False ! i"
    using i by (simp add: dct_bits_def dct_zero dct_threshold_def target_coef_def block_size_def)
qed

lemma dft_bits_zero:
  "dft_bits (replicate n 0) = replicate (nat (dft_max_bits n)) False"
proof (rule nth_equalityI)
  show "length (dft_bits (replicate n 0)) = length (replicate (nat (dft_max_bits n)) False)"
    by (simp add: dft_bits_def)
  fix i assume "i < length (dft_bits (replicate n 0))"
  then have i: "i < nat (dft_max_bits n)" by (simp add: dft_bits_def)
  then have "int i + 1 \<le> (int n div 2 - int start_idx) div int dft_step"
    by (simp add: dft_max_bits_def)
  then have "2 * (int i + 1) \<le> int n div 2 - 2000"
    by (simp add: dft_step_def start_idx_def)
  then have "start_idx + i * dft_step < n"
    by (simp add: dft_step_def start_idx_def)
  then show "dft_bits (replicate n 0) ! i = replicate (nat (dft_max_bits n)) False ! i"
    using i by (simp add: dft_bits_def dft_threshold_def)
qed

lemma dwt_bits_zero: "dwt_bits (replicate n 0) = replicate (n div dwt_step) False"
proof (rule nth_equalityI)
  show "length (dwt_bits (replicate n 0)) = length (replicate (n div dwt_step) False)"
    by (simp add: dwt_bits_def)
  fix i assume "i < length (dwt_bits (replicate n 0))"
  then have i: "i < n div dwt_step" by (simp add: dwt_bits_def)
  then have "i * dwt_step < n" by (simp add: dwt_step_def)
  then show "dwt_bits (replicate n 0) ! i = replicate (n div dwt_step) False ! i"
    using i by (simp add: dwt_bits_def)
qed

lemma marker_free_zeros: "marker_free (replicate k False)"
proof -
  have "\<not> endswith (replicate j False) END_MARKER" for j
  proof
    assume "endswith (replicate j False) END_MARKER"
    then have "drop (length (replicate j False) - length END_MARKER) (replicate j False)
                 = END_MARKER"
      unfolding endswith_def by blast
    then have "set END_MARKER \<subseteq> set (replicate j False)"
      by (metis set_drop_subset)
    then have "set END_MARKER \<subseteq> {False}" by (auto split: if_splits)
    then show False by (simp add: END_MARKER_def)
  qed
  then show ?thesis by (simp add: marker_free_def min_def)
qed

lemma binary_to_text_not_failed: "binary_to_text bs \<noteq> Inr extraction_failed"
proof
  assume a: "binary_to_text bs = Inr extraction_failed"
  have "\<forall>c \<in> set (map (\<lambda>k. int2 (take 8 (drop (8 * k) bs))) [0 ..< length bs div 8]). c < 256"
  proof
    fix c assume "c \<in> set (map (\<lambda>k. int2 (take 8 (drop (8 * k) bs))) [0 ..< length bs div 8])"
    then obtain k where c: "c = int2 (take 8 (drop (8 * k) bs))" by auto
    have "c < 2 ^ length (take 8 (drop (8 * k) bs))" unfolding c by (rule int2_less)
    also have "\<dots> \<le> 2 ^ 8" by (intro power_increasing) auto
    finally show "c < 256" by simp
  qed
  moreover have "map (\<lambda>k. int2 (take 8 (drop (8 * k) bs))) [0 ..< length bs div 8]
                   = extraction_failed"
    using a unfolding binary_to_text_total by (rule sum.inject(2) [THEN iffD1])
  ultimately have "\<forall>c \<in> set extraction_failed. c < 256"
    by (simp only:)
  then show False by (simp add: extraction_failed_def)
qed

section \<open>Extraction when the marker is missing\<close>

lemma length_fft [simp]: "length (fft x) = length x"
  by (simp add: fft_def Let_def)

lemma length_ifft [simp]: "length (ifft x) = length x"
  by (simp add: ifft_def Let_def)

lemma int2_all_zero: "int2 (replicate k False) = 0"
  using int2_zeros [of k "[]"] by (simp add: int2_def)

lemma dft_extract_channel_scan:
  assumes "2018 < length channel_1"
  shows "dft_extract_channel channel_1
           = binary_to_text (scan (dft_bits (fft (map complex_of_real channel_1))) [])"
proof -
  have ne: "channel_1 \<noteq> []" using assms by auto
  have u: "[0 ..< 10] = [0, 1, 2, 3, 4, 5, 6, 7, 8, 9::nat]" by (simp add: upt_rec)
  have reads: "list_all (\<lambda>i. start_idx + i * dft_step
                  < length (fft (map complex_of_real channel_1))) [0 ..< 10]"
    unfolding u using assms by (simp add: start_idx_def dft_step_def)
  have loop: "dft_extract_loop (fft (map complex_of_real channel_1))
                (dft_max_bits (length channel_1)) 0 []
              = scan (dft_bits (fft (map complex_of_real channel_1))) []"
    using dft_extract_loop_bits [of "fft (map complex_of_real channel_1)"] by simp
  show ?thesis
    unfolding dft_extract_channel_def Let_def loop binary_to_text_total
    using ne reads by simp
qed

text \<open>
  C3 as the specification states it: when the scan never finds the marker, every
  strategy returns the failure sentinel. On silent channels (all samples zero) every
  scanned bit is 0, the marker is never found, and the three strategies return the text
  decoded from the scanned bits, made of NUL characters.
\<close>

theorem missing_marker_counterexample:
  "marker_free (dft_bits (fft (map complex_of_real (replicate 4064 0))))
   \<and> dft_extract_channel (replicate 4064 0) = Inr [0, 0]
   \<and> marker_free (dct_bits (replicate 8192 0))
   \<and> dct_extract_channel (replicate 8192 0) = [0]
   \<and> marker_free (dwt_bits (wavedec (replicate 12800 0) level ! subband_idx))
   \<and> dwt_extract_channel (replicate 12800 0) = Inr [0]
   \<and> [0] \<noteq> extraction_failed"
proof -
  have z: "map complex_of_real (replicate 4064 0) = replicate 4064 0" by simp
  have f: "dft_bits (fft (map complex_of_real (replicate 4064 0))) = replicate 16 False"
    unfolding z fft_zero dft_bits_zero
    by (simp add: dft_max_bits_def start_idx_def dft_step_def)
  have t16: "binary_to_text (replicate 16 False) = Inr [0, 0]"
    by (simp add: binary_to_text_total int2_all_zero upt_rec)
  have t8: "binary_to_text (replicate 8 False) = Inr [0]"
    by (simp add: binary_to_text_total int2_all_zero)
  have 1: "marker_free (dft_bits (fft (map complex_of_real (replicate 4064 0))))"
    unfolding f by (rule marker_free_zeros)
  have h: "2018 < length (replicate 4064 (0::real))" by simp
  have 2: "dft_extract_channel (replicate 4064 0) = Inr [0, 0]"
    unfolding dft_extract_channel_scan [OF h] f
    by (simp add: scan_marker_free marker_free_zeros t16)
  have c: "dct_bits (replicate 8192 0) = replicate 8 False"
    unfolding dct_bits_zero by (simp add: block_size_def)
  have 3: "marker_free (dct_bits (replicate 8192 0))"
    unfolding c by (rule marker_free_zeros)
  have 4: "dct_extract_channel (replicate 8192 0) = [0]"
    unfolding dct_extract_channel_scan c
    by (simp add: scan_marker_free marker_free_zeros t8)
  have w: "dwt_bits (wavedec (replicate 12800 0) level ! subband_idx) = replicate 8 False"
    unfolding target_subband
    by (simp add: numeral_3_eq_3 dwt_zero dwt_bits_zero dwt_step_def)
  have 5: "marker_free (dwt_bits (wavedec (replicate 12800 0) level ! subband_idx))"
    unfolding w by (rule marker_free_zeros)
  have ne: "replicate 12800 (0::real) \<noteq> []" by simp
  have 6: "dwt_extract_channel (replicate 12800 0) = Inr [0]"
    unfolding dwt_extract_channel_scan [OF ne] w
    by (simp add: scan_marker_free marker_free_zeros t8)
  have 7: "[0] \<noteq> extraction_failed" by (simp add: extraction_failed_def)
  show ?thesis using 1 2 3 4 5 6 7 by blast
qed

text \<open>
  C3, amended. When the scan of the whole capacity never produces the end marker, no
  strategy reports a failure for that: the scanned bits are decoded and the partial
  text is returned. The frequency strategy does so for every channel of more than 2018
  samples; the cosine and the wavelet strategy do so whenever at least one bit was
  scanned, and return the failure string only when no bit was scanned at all. The
  failure string differs from every decoded text (it contains code points above 255).
\<close>

theorem missing_marker_decodes_partial:
  "(2018 < length ch1 \<and> marker_free (dft_bits (fft (map complex_of_real ch1)))
      \<longrightarrow> dft_extract_channel ch1 = binary_to_text (dft_bits (fft (map complex_of_real ch1))))
   \<and> (marker_free (dct_bits ch2)
      \<longrightarrow> (dct_bits ch2 \<noteq> [] \<longrightarrow> Inr (dct_extract_channel ch2) = binary_to_text (dct_bits ch2))
        \<and> (dct_bits ch2 = [] \<longrightarrow> dct_extract_channel ch2 = extraction_failed))
   \<and> (ch3 \<noteq> [] \<and> marker_free (dwt_bits (wavedec ch3 level ! subband_idx))
      \<longrightarrow> (dwt_bits (wavedec ch3 level ! subband_idx) \<noteq> []
            \<longrightarrow> dwt_extract_channel ch3
                = binary_to_text (dwt_bits (wavedec ch3 level ! subband_idx)))
        \<and> (dwt_bits (wavedec ch3 level ! subband_idx) = []
            \<longrightarrow> dwt_extract_channel ch3 = Inr extraction_failed))
   \<and> binary_to_text bs \<noteq> Inr extraction_failed"
proof (intro conjI impI)
  assume "2018 < length ch1 \<and> marker_free (dft_bits (fft (map complex_of_real ch1)))"
  then show "dft_extract_channel ch1 = binary_to_text (dft_bits (fft (map complex_of_real ch1)))"
    by (simp add: dft_extract_channel_scan scan_marker_free)
next
  assume "marker_free (dct_bits ch2)" "dct_bits ch2 \<noteq> []"
  then show "Inr (dct_extract_channel ch2) = binary_to_text (dct_bits ch2)"
    unfolding dct_extract_channel_scan by (simp add: scan_marker_free binary_to_text_total)
next
  assume "marker_free (dct_bits ch2)" "dct_bits ch2 = []"
  then show "dct_extract_channel ch2 = extraction_failed"
    unfolding dct_extract_channel_scan by simp
next
  assume a: "ch3 \<noteq> [] \<and> marker_free (dwt_bits (wavedec ch3 level ! subband_idx))"
    and "dwt_bits (wavedec ch3 level ! subband_idx) \<noteq> []"
  then show "dwt_extract_channel ch3 = binary_to_text (dwt_bits (wavedec ch3 level ! subband_idx))"
    using dwt_extract_channel_scan [of ch3]
    by (simp add: scan_marker_free binary_to_text_total)
next
  assume a: "ch3 \<noteq> [] \<and> marker_free (dwt_bits (wavedec ch3 level ! subband_idx))"
    and "dwt_bits (wavedec ch3 level ! subband_idx) = []"
  then show "dwt_extract_channel ch3 = Inr extraction_failed"
    using dwt_extract_channel_scan [of ch3] by simp
next
  show "binary_to_text bs \<noteq> Inr extraction_failed" by (rule binary_to_text_not_failed)
qed

theorem missing_marker_decodes_partial_witness:
  "dft_extract_channel (replicate 5000 0) = binary_to_text (replicate 250 False)
   \<and> Inr (dct_extract_channel (replicate 3000 0)) = binary_to_text (replicate 2 False)
   \<and> dct_extract_channel (replicate 1000 0) = extraction_failed
   \<and> dwt_extract_channel (replicate 4800 0) = binary_to_text (replicate 3 False)
   \<and> dwt_extract_channel (replicate 1000 0) = Inr extraction_failed"
proof -
  note t = missing_marker_decodes_partial
  have z: "map complex_of_real (replicate 5000 0) = replicate 5000 0" by simp
  have f: "dft_bits (fft (map complex_of_real (replicate 5000 0))) = replicate 250 False"
    unfolding z fft_zero dft_bits_zero
    by (simp add: dft_max_bits_def start_idx_def dft_step_def)
  have h: "2018 < length (replicate 5000 (0::real))" by simp
  have 1: "dft_extract_channel (replicate 5000 0) = binary_to_text (replicate 250 False)"
    using t [of "replicate 5000 0"] h unfolding f by (simp add: marker_free_zeros)
  have c2: "dct_bits (replicate 3000 0) = replicate 2 False"
    unfolding dct_bits_zero by (simp add: block_size_def)
  have 2: "Inr (dct_extract_channel (replicate 3000 0)) = binary_to_text (replicate 2 False)"
    using t [of _ "replicate 3000 0"] unfolding c2 by (simp add: marker_free_zeros)
  have c3: "dct_bits (replicate 1000 0) = []"
    unfolding dct_bits_zero by (simp add: block_size_def)
  have 3: "dct_extract_channel (replicate 1000 0) = extraction_failed"
    using t [of _ "replicate 1000 0"] unfolding c3 by (simp add: marker_free_def endswith_def END_MARKER_def)
  have w4: "dwt_bits (wavedec (replicate 4800 0) level ! subband_idx) = replicate 3 False"
    unfolding target_subband
    by (simp add: numeral_3_eq_3 dwt_zero dwt_bits_zero dwt_step_def)
  have 4: "dwt_extract_channel (replicate 4800 0) = binary_to_text (replicate 3 False)"
    using t [of _ _ "replicate 4800 0"] unfolding w4 by (simp add: marker_free_zeros)
  have w5: "dwt_bits (wavedec (replicate 1000 0) level ! subband_idx) = []"
    unfolding target_subband
    by (simp add: numeral_3_eq_3 dwt_zero dwt_bits_zero dwt_step_def)
  have 5: "dwt_extract_channel (replicate 1000 0) = Inr extraction_failed"
    using t [of _ _ "replicate 1000 0"] unfolding w5
    by (simp add: marker_free_def endswith_def END_MARKER_def)
  show ?thesis using 1 2 3 4 5 by blast
qed

section \<open>The marker at the start of the scan\<close>

lemma marker_only_at_end_marker: "marker_only_at_end ([] @ END_MARKER)"
  by (simp add: marker_only_at_end_def endswith_def)

lemma scan_marker_first:
  assumes "take 16 bs = END_MARKER"
  shows "scan bs [] = []"
  using scan_framed [of "[]" bs] assms marker_only_at_end_marker
  by (simp add: length_END_MARKER)

lemma dct_embed_channel_fits:
  assumes "length (text_to_binary msg @ END_MARKER) \<le> length c div block_size"
  shows "dct_embed_channel c msg
           = Inr (dct_embed_loop c (text_to_binary msg @ END_MARKER) (length c div block_size) 0 c)"
  using assms by (simp add: dct_embed_channel_def Let_def)

lemma extraction_failed_nonempty: "extraction_failed \<noteq> []"
  by (simp add: extraction_failed_def)

section \<open>Capacities\<close>

lemma framed_length_ge: "16 \<le> length (text_to_binary msg @ END_MARKER)"
  by (simp add: length_END_MARKER)

lemma dwt_capacity_empty: "length (wavedec [] level ! subband_idx) = 0"
  by (simp add: target_subband numeral_3_eq_3)

lemma length_dft_embed_loop:
  "length (dft_embed_loop b max_amp i X) = length X"
proof (induction b max_amp i X rule: dft_embed_loop.induct)
  case (1 b max_amp i X)
  show ?case
  proof (cases "i < length b \<and> \<not> length X div 2 \<le> start_idx + i * dft_step")
    case False
    then show ?thesis by (subst dft_embed_loop.simps) (auto simp: Let_def)
  next
    case True
    then have a: "i < length b" and b: "\<not> length X div 2 \<le> start_idx + i * dft_step"
      by auto
    show ?thesis
      using a b "1.IH" [OF a refl b refl refl refl refl refl]
      by (subst dft_embed_loop.simps) (simp add: Let_def)
  qed
qed

lemma dft_capacity_nonempty:
  assumes "15 \<le> dft_max_bits (length c)"
  shows "c \<noteq> []"
proof
  assume "c = []"
  then have "dft_max_bits (length c) = - 1000"
    by (simp add: dft_max_bits_def start_idx_def dft_step_def)
  then show False using assms by simp
qed

lemma dft_embed_channel_ok:
  assumes "int (length (text_to_binary msg @ END_MARKER)) \<le> dft_max_bits (length c)"
    and "\<exists>x \<in> set c. x \<noteq> 0"
  shows "\<exists>out. dft_embed_channel c msg = Inr out \<and> length out = length c"
proof -
  have ne: "c \<noteq> []" using assms(2) by auto
  have peak: "max_abs c \<noteq> 0" using max_abs_zero_iff [OF ne] assms(2) by blast
  show ?thesis
    using ne peak assms(1)
    by (simp add: dft_embed_channel_def Let_def length_dft_embed_loop del: length_append)
qed

lemma dwt_capacity_constant:
  "length (wavedec (replicate n v) level ! subband_idx)
     = ((((n + 1) div 2 + 1) div 2 + 1) div 2 + 1) div 2"
  by (simp add: target_subband numeral_3_eq_3)

section \<open>The discrete Fourier transform and its inverse\<close>

lemma cis_eq_one_imp:
  assumes "cis t = 1"
  shows "\<exists>m::int. t = of_int m * 2 * pi"
proof -
  have "cos t = 1" using assms by (simp add: complex_eq_iff)
  then show ?thesis using cos_one_2pi_int by blast
qed

lemma root_of_unity_sum:
  assumes "p < N" "q < N"
  shows "(\<Sum>t < N. cis (2 * pi * (real p * real t) / real N)
                    * cis (- (2 * pi * (real q * real t) / real N)))
           = (if p = q then of_nat N else 0)"
proof -
  have N: "0 < real N" using assms by simp
  define w where "w = cis (2 * pi * (real p - real q) / real N)"
  have tm: "cis (2 * pi * (real p * real t) / real N)
                * cis (- (2 * pi * (real q * real t) / real N)) = w ^ t" for t
  proof -
    have "2 * pi * (real p * real t) / real N + - (2 * pi * (real q * real t) / real N)
            = real t * (2 * pi * (real p - real q) / real N)"
      by (simp add: algebra_simps diff_divide_distrib)
    then show ?thesis by (simp only: cis_mult w_def DeMoivre)
  qed
  show ?thesis
  proof (cases "p = q")
    case True
    then have "w = 1" by (simp add: w_def)
    then have "(\<Sum>t < N. w ^ t) = of_nat N" by simp
    then show ?thesis unfolding tm using True by simp
  next
    case False
    have w1: "w \<noteq> 1"
    proof
      assume "w = 1"
      then obtain m :: int where m: "2 * pi * (real p - real q) / real N = of_int m * 2 * pi"
        unfolding w_def using cis_eq_one_imp by blast
      then have "(2 * pi) * ((real p - real q) / real N) = (2 * pi) * of_int m"
        by (simp add: algebra_simps)
      moreover have "2 * pi \<noteq> 0" by simp
      ultimately have "(real p - real q) / real N = of_int m"
        by (metis mult_left_cancel)
      then have e: "real p - real q = of_int m * real N" using N by (simp add: field_simps)
      have "\<bar>real p - real q\<bar> < real N" using assms by linarith
      then have "\<bar>real_of_int m\<bar> * real N < 1 * real N" unfolding e by (simp add: abs_mult)
      then have "\<bar>real_of_int m\<bar> < 1" using N by (simp only: mult_less_cancel_right_pos)
      then have "m = 0" by linarith
      then show False using e False by simp
    qed
    have "w ^ N = cis (2 * pi * (real p - real q))"
      unfolding w_def DeMoivre using N by simp
    also have "\<dots> = cis (2 * pi * real p) * cis (- (2 * pi * real q))"
      by (simp add: cis_mult algebra_simps)
    also have "\<dots> = 1"
      by (simp add: cis_cnj [symmetric])
    finally have wN: "w ^ N = 1" .
    have "(\<Sum>t < N. w ^ t) = (w ^ N - 1) / (w - 1)"
      using w1 by (rule geometric_sum)
    then show ?thesis unfolding tm using False wN by simp
  qed
qed

lemma fft_nth:
  assumes "k < length x"
  shows "fft x ! k
           = (\<Sum>n < length x. x ! n * cis (- (2 * pi * (real k * real n) / real (length x))))"
  using assms by (simp add: fft_def Let_def mult.assoc)

lemma ifft_nth:
  assumes "n < length X"
  shows "ifft X ! n
           = (\<Sum>k < length X. X ! k * cis (2 * pi * (real k * real n) / real (length X)))
             / of_nat (length X)"
  using assms by (simp add: ifft_def Let_def mult.assoc)

lemma fft_ifft_nth:
  assumes "k < length X"
  shows "fft (ifft X) ! k = X ! k"
proof -
  define N where "N = length X"
  define e where "e j n = cis (2 * pi * (real j * real n) / real N)" for j n
  define f where "f j n = cis (- (2 * pi * (real j * real n) / real N))" for j n
  have k: "k < N" using assms by (simp add: N_def)
  have N0: "of_nat N \<noteq> (0::complex)" using k by simp
  have orth: "(\<Sum>n < N. e j n * f k n) = (if j = k then of_nat N else 0)" if "j < N" for j
    unfolding e_def f_def by (rule root_of_unity_sum [OF that k])
  have "fft (ifft X) ! k = (\<Sum>n < N. ifft X ! n * f k n)"
    using k by (simp add: fft_nth N_def f_def)
  also have "\<dots> = (\<Sum>n < N. (\<Sum>j < N. X ! j * e j n) / of_nat N * f k n)"
    by (rule sum.cong [OF refl]) (simp add: ifft_nth N_def e_def)
  also have "\<dots> = (\<Sum>n < N. \<Sum>j < N. X ! j / of_nat N * (e j n * f k n))"
    by (rule sum.cong [OF refl]) (simp add: sum_distrib_right sum_divide_distrib mult.assoc)
  also have "\<dots> = (\<Sum>j < N. \<Sum>n < N. X ! j / of_nat N * (e j n * f k n))"
    by (rule sum.swap)
  also have "\<dots> = (\<Sum>j < N. X ! j / of_nat N * (\<Sum>n < N. e j n * f k n))"
    by (simp only: sum_distrib_left)
  also have "\<dots> = (\<Sum>j < N. if j = k then X ! j else 0)"
  proof (rule sum.cong [OF refl])
    fix j assume "j \<in> {..<N}"
    then have j: "j < N" by simp
    show "X ! j / of_nat N * (\<Sum>n < N. e j n * f k n) = (if j = k then X ! j else 0)"
      unfolding orth [OF j] using N0 by simp
  qed
  also have "\<dots> = X ! k" using k by (simp add: sum.delta)
  finally show ?thesis .
qed

lemma ifft_fft_nth:
  assumes "n < length x"
  shows "ifft (fft x) ! n = x ! n"
proof -
  define N where "N = length x"
  define e where "e j n = cis (2 * pi * (real j * real n) / real N)" for j n
  define f where "f j n = cis (- (2 * pi * (real j * real n) / real N))" for j n
  have n: "n < N" using assms by (simp add: N_def)
  have N0: "of_nat N \<noteq> (0::complex)" using n by simp
  have sym: "e k n = e n k" "f k j = f j k" for k j
    by (simp_all add: e_def f_def mult.commute)
  have orth: "(\<Sum>k < N. e n k * f j k) = (if n = j then of_nat N else 0)" if "j < N" for j
    unfolding e_def f_def by (rule root_of_unity_sum [OF n that])
  have "ifft (fft x) ! n = (\<Sum>k < N. fft x ! k * e k n) / of_nat N"
    using n by (simp add: ifft_nth N_def e_def)
  also have "(\<Sum>k < N. fft x ! k * e k n) = (\<Sum>k < N. (\<Sum>j < N. x ! j * f k j) * e k n)"
    by (rule sum.cong [OF refl]) (simp add: fft_nth N_def f_def)
  also have "\<dots> = (\<Sum>k < N. \<Sum>j < N. x ! j * (e n k * f j k))"
  proof (rule sum.cong [OF refl])
    fix k
    have "(\<Sum>j < N. x ! j * f k j) * e k n = (\<Sum>j < N. x ! j * f k j * e k n)"
      by (rule sum_distrib_right)
    also have "\<dots> = (\<Sum>j < N. x ! j * (e n k * f j k))"
      by (rule sum.cong [OF refl]) (simp add: sym(1) [of k] sym(2) [of k] mult.commute)
    finally show "(\<Sum>j < N. x ! j * f k j) * e k n = (\<Sum>j < N. x ! j * (e n k * f j k))" .
  qed
  also have "\<dots> = (\<Sum>j < N. \<Sum>k < N. x ! j * (e n k * f j k))"
    by (rule sum.swap)
  also have "\<dots> = (\<Sum>j < N. x ! j * (\<Sum>k < N. e n k * f j k))"
    by (simp only: sum_distrib_left)
  also have "\<dots> = (\<Sum>j < N. if j = n then x ! j * of_nat N else 0)"
  proof (rule sum.cong [OF refl])
    fix j assume "j \<in> {..<N}"
    then have j: "j < N" by simp
    show "x ! j * (\<Sum>k < N. e n k * f j k) = (if j = n then x ! j * of_nat N else 0)"
      unfolding orth [OF j] by auto
  qed
  also have "\<dots> = x ! n * of_nat N" using n by (simp add: sum.delta)
  finally show ?thesis using N0 by simp
qed

lemma cis_mirror:
  assumes "k < N"
  shows "cis (- (2 * pi * (real (N - k) * real n) / real N))
           = cis (2 * pi * (real k * real n) / real N)"
proof -
  have N: "0 < real N" using assms by simp
  have "- (2 * pi * (real (N - k) * real n) / real N)
          = 2 * pi * (real k * real n) / real N + - (2 * pi * real n)"
    using assms N by (simp add: of_nat_diff field_simps)
  then have "cis (- (2 * pi * (real (N - k) * real n) / real N))
               = cis (2 * pi * (real k * real n) / real N) * cis (- (2 * pi * real n))"
    by (simp only: cis_mult)
  also have "cis (- (2 * pi * real n)) = 1"
    by (simp add: cis_cnj [symmetric])
  finally show ?thesis by simp
qed

lemma fft_real_part:
  assumes "0 < k" "k < length v"
  shows "fft (map complex_of_real (map Re v)) ! k
           = (fft v ! k + cnj (fft v ! (length v - k))) / 2"
proof -
  define N where "N = length v"
  define f where "f j n = cis (- (2 * pi * (real j * real n) / real N))" for j n
  have k: "k < N" using assms by (simp add: N_def)
  have nk: "N - k < N" using assms by (simp add: N_def)
  have mirror: "cnj (f (N - k) n) = f k n" for n
    unfolding f_def cis_mirror [OF k] by (simp add: cis_cnj)
  have "fft (map complex_of_real (map Re v)) ! k
          = (\<Sum>n < N. complex_of_real (Re (v ! n)) * f k n)"
    using k by (simp add: fft_nth N_def f_def)
  also have "\<dots> = (\<Sum>n < N. (v ! n * f k n + cnj (v ! n * f (N - k) n)) / 2)"
  proof (rule sum.cong [OF refl])
    fix n
    have "complex_of_real (Re (v ! n)) = (v ! n + cnj (v ! n)) / 2"
      by (simp add: complex_add_cnj)
    then show "complex_of_real (Re (v ! n)) * f k n
                 = (v ! n * f k n + cnj (v ! n * f (N - k) n)) / 2"
      by (simp add: mirror algebra_simps add_divide_distrib)
  qed
  also have "\<dots> = ((\<Sum>n < N. v ! n * f k n) + cnj (\<Sum>n < N. v ! n * f (N - k) n)) / 2"
    by (simp only: sum_divide_distrib [symmetric] sum.distrib cnj_sum)
  also have "\<dots> = (fft v ! k + cnj (fft v ! (N - k))) / 2"
    using k nk by (simp add: fft_nth N_def f_def)
  finally show ?thesis by (simp add: N_def)
qed

lemma fft_scale:
  assumes "k < length y"
  shows "fft (map complex_of_real (map (\<lambda>v. v / r) y)) ! k
           = fft (map complex_of_real y) ! k / complex_of_real r"
proof -
  have "fft (map complex_of_real (map (\<lambda>v. v / r) y)) ! k
          = (\<Sum>n < length y. complex_of_real (y ! n) / complex_of_real r
               * cis (- (2 * pi * (real k * real n) / real (length y))))"
    using assms by (simp add: fft_nth)
  also have "\<dots> = (\<Sum>n < length y. complex_of_real (y ! n)
               * cis (- (2 * pi * (real k * real n) / real (length y)))) / complex_of_real r"
    by (simp add: sum_divide_distrib)
  finally show ?thesis using assms by (simp add: fft_nth)
qed

section \<open>What the frequency strategy embeds is what it reads back\<close>

lemma dft_index_in_range:
  assumes "int (length b) \<le> dft_max_bits (length X)" "t < length b"
  shows "start_idx + t * dft_step < length X div 2"
proof -
  have "int t + 1 \<le> (int (length X) div 2 - int start_idx) div int dft_step"
    using assms by (simp add: dft_max_bits_def)
  then have "2 * (int t + 1) \<le> int (length X) div 2 - 2000"
    by (simp add: dft_step_def start_idx_def)
  then show ?thesis by (simp add: dft_step_def start_idx_def)
qed

lemma dft_embed_loop_inv:
  assumes "int (length b) \<le> dft_max_bits (length X)" "t < length b"
  shows "dft_embed_loop b M i X ! (start_idx + t * dft_step)
           = (if i \<le> t
              then complex_of_real (min (if b ! t then dft_bit1_value else dft_bit0_value)
                                        (M * (1 / 10)))
                   * cis (Arg (X ! (start_idx + t * dft_step)))
              else X ! (start_idx + t * dft_step))
         \<and> dft_embed_loop b M i X ! (length X - (start_idx + t * dft_step))
           = (if i \<le> t
              then cnj (complex_of_real (min (if b ! t then dft_bit1_value else dft_bit0_value)
                                             (M * (1 / 10)))
                        * cis (Arg (X ! (start_idx + t * dft_step))))
              else X ! (length X - (start_idx + t * dft_step)))"
  using assms
proof (induction b M i X rule: dft_embed_loop.induct)
  case (1 b M i X)
  define N where "N = length X"
  define idx where "idx s = start_idx + s * dft_step" for s
  have rng: "idx s < N div 2" if "s < length b" for s
    unfolding idx_def N_def by (rule dft_index_in_range [OF "1.prems"(1) that])
  have pos: "0 < idx s" for s by (simp add: idx_def start_idx_def)
  have inj: "idx s \<noteq> idx u" if "s \<noteq> u" for s u
    using that by (simp add: idx_def dft_step_def)
  show ?case
  proof (cases "i < length b")
    case False
    then show ?thesis using "1.prems"(2) by (subst (1 2) dft_embed_loop.simps) simp
  next
    case True
    have nobreak: "\<not> length X div 2 \<le> start_idx + i * dft_step"
      using rng [OF True] by (simp add: idx_def N_def)
    define new where "new = complex_of_real
        (min (if b ! i then dft_bit1_value else dft_bit0_value) (M * (1 / 10)))
        * cis (Arg (X ! idx i))"
    define X1 where "X1 = X[idx i := new]"
    define X2 where "X2 = X1[length X1 - idx i := cnj (X1 ! idx i)]"
    have len1: "length X1 = N" by (simp add: X1_def N_def)
    have ii: "idx i < N" using rng [OF True] by simp
    have X1i: "X1 ! idx i = new" using ii by (simp add: X1_def N_def)
    have len2: "length X2 = length X" by (simp add: X2_def X1_def)
    have step: "dft_embed_loop b M i X = dft_embed_loop b M (i + 1) X2"
      using True nobreak
      by (subst dft_embed_loop.simps)
        (simp add: Let_def X2_def X1_def new_def idx_def N_def)
    have pre: "int (length b) \<le> dft_max_bits (length X2)"
      using "1.prems"(1) len2 by simp
    note IH = "1.IH" [OF True refl nobreak refl refl refl refl refl,
        folded idx_def, folded new_def, folded X1_def, folded X2_def,
        OF pre "1.prems"(2), unfolded len2, folded N_def]
    have it: "idx t < N div 2" by (rule rng [OF "1.prems"(2)])
    have self: "N - idx i \<noteq> idx i" using rng [OF True] by linarith
    have at_i: "X2 ! idx i = new" "X2 ! (N - idx i) = cnj new"
      using ii pos [of i] X1i len1 self by (simp_all add: X2_def)
    have other: "X2 ! idx t = X ! idx t" "X2 ! (N - idx t) = X ! (N - idx t)" if "t \<noteq> i"
    proof -
      have a: "idx t \<noteq> idx i" using that by (rule inj)
      have b: "idx t \<noteq> N - idx i" using it rng [OF True] by linarith
      have c: "N - idx t \<noteq> idx i" using it rng [OF True] by linarith
      have d: "N - idx t \<noteq> N - idx i" using it ii a by linarith
      show "X2 ! idx t = X ! idx t" using a b by (simp add: X2_def len1) (simp add: X1_def)
      show "X2 ! (N - idx t) = X ! (N - idx t)"
        using c d by (simp add: X2_def len1) (simp add: X1_def)
    qed
    consider "t < i" | "t = i" | "i < t" by linarith
    then show ?thesis
    proof cases
      case 1
      then have "t \<noteq> i" by simp
      from other [OF this] 1 show ?thesis
        unfolding step using IH by (simp add: idx_def N_def)
    next
      case 2
      then show ?thesis
        unfolding step using IH at_i by (simp add: idx_def N_def new_def)
    next
      case 3
      then have "t \<noteq> i" by simp
      from other [OF this] 3 show ?thesis
        unfolding step using IH by (simp add: idx_def N_def)
    qed
  qed
qed

lemma max_abs_ge: "x \<in> set xs \<Longrightarrow> \<bar>x\<bar> \<le> max_abs xs"
  unfolding max_abs_def by (intro Max_ge) auto

lemma max_abs_attained: "xs \<noteq> [] \<Longrightarrow> \<exists>m < length xs. \<bar>xs ! m\<bar> = max_abs xs"
proof -
  assume "xs \<noteq> []"
  then have "Max (set (map abs xs)) \<in> set (map abs xs)" by (intro Max_in) auto
  then obtain x where "x \<in> set xs" "\<bar>x\<bar> = max_abs xs" by (auto simp: max_abs_def)
  then show ?thesis by (metis in_set_conv_nth)
qed

lemma max_abs_nonneg: "xs \<noteq> [] \<Longrightarrow> 0 \<le> max_abs xs"
  using max_abs_attained [of xs] by (metis abs_ge_zero)

lemma spectrum_peak_ge:
  assumes "m < length x"
  shows "\<bar>x ! m\<bar> \<le> max_abs (map cmod (fft (map complex_of_real x)))"
proof -
  define N where "N = length x"
  define X where "X = fft (map complex_of_real x)"
  define M where "M = max_abs (map cmod X)"
  have m: "m < N" using assms by (simp add: N_def)
  have lX: "length X = N" by (simp add: X_def N_def)
  have N0: "0 < real N" using m by simp
  have bound: "cmod (X ! k) \<le> M" if "k < N" for k
  proof -
    have "cmod (X ! k) \<in> set (map cmod X)" using that lX by auto
    from max_abs_ge [OF this] show ?thesis by (simp add: M_def)
  qed
  have "complex_of_real (x ! m) = ifft X ! m"
    using m ifft_fft_nth [of m "map complex_of_real x"] by (simp add: X_def N_def)
  also have "\<dots> = (\<Sum>k < N. X ! k * cis (2 * pi * (real k * real m) / real N)) / of_nat N"
    using m lX by (simp add: ifft_nth)
  finally have "\<bar>x ! m\<bar>
      = cmod ((\<Sum>k < N. X ! k * cis (2 * pi * (real k * real m) / real N)) / of_nat N)"
    by (metis norm_of_real)
  also have "\<dots> = cmod (\<Sum>k < N. X ! k * cis (2 * pi * (real k * real m) / real N)) / real N"
    by (simp add: norm_divide)
  also have "\<dots> \<le> (\<Sum>k < N. cmod (X ! k * cis (2 * pi * (real k * real m) / real N))) / real N"
    using N0 by (intro divide_right_mono norm_sum) simp
  also have "\<dots> = (\<Sum>k < N. cmod (X ! k)) / real N"
    by (simp add: norm_mult)
  also have "\<dots> \<le> (\<Sum>k < N. M) / real N"
    using N0 bound by (intro divide_right_mono sum_mono) simp_all
  also have "\<dots> = M" using N0 by simp
  finally show ?thesis by (simp add: M_def X_def)
qed

lemma normalized_spectrum_peak:
  assumes "c \<noteq> []" "max_abs c \<noteq> 0"
  shows "1 \<le> max_abs (map cmod (fft (map complex_of_real (map (\<lambda>v. v / max_abs c) c))))"
proof -
  from max_abs_attained [OF assms(1)] obtain m where
    m: "m < length c" "\<bar>c ! m\<bar> = max_abs c" by blast
  have "\<bar>map (\<lambda>v. v / max_abs c) c ! m\<bar> = 1"
    using m assms(2) max_abs_nonneg [OF assms(1)] by simp
  moreover have "m < length (map (\<lambda>v. v / max_abs c) c)" using m by simp
  ultimately show ?thesis using spectrum_peak_ge by metis
qed

lemma dft_embed_channel_Inr:
  assumes "dft_embed_channel c msg = Inr out"
  shows "c \<noteq> []" and "max_abs c \<noteq> 0"
    and "int (length (text_to_binary msg @ END_MARKER)) \<le> dft_max_bits (length c)"
    and "out = (if max_abs (dft_modified_channel c msg) > 1
                then map (\<lambda>v. v / max_abs (dft_modified_channel c msg)) (dft_modified_channel c msg)
                else dft_modified_channel c msg)"
  using assms
  by (auto simp: dft_embed_channel_def dft_modified_channel_def dft_embedded_spectrum_def
      Let_def split: if_splits simp del: length_append)

lemma length_dft_modified_channel: "length (dft_modified_channel c msg) = length c"
  by (simp add: dft_modified_channel_def dft_embedded_spectrum_def Let_def length_dft_embed_loop)

lemma dft_embedded_bin:
  assumes "c \<noteq> []" "max_abs c \<noteq> 0"
    and "int (length (text_to_binary msg @ END_MARKER)) \<le> dft_max_bits (length c)"
    and "t < length (text_to_binary msg @ END_MARKER)"
  shows "cmod (fft (map complex_of_real (dft_modified_channel c msg)) ! (start_idx + t * dft_step))
           = (if (text_to_binary msg @ END_MARKER) ! t then dft_bit1_value else dft_bit0_value)"
proof -
  let ?b = "text_to_binary msg @ END_MARKER"
  define X where "X = fft (map complex_of_real (map (\<lambda>v. v / max_abs c) c))"
  define M where "M = max_abs (map cmod X)"
  define X' where "X' = dft_embed_loop ?b M 0 X"
  define idx where "idx = start_idx + t * dft_step"
  define amp where "amp = min (if ?b ! t then dft_bit1_value else dft_bit0_value) (M * (1 / 10))"
  have lX: "length X = length c" by (simp add: X_def)
  have lX': "length X' = length c" by (simp add: X'_def length_dft_embed_loop lX)
  have spec: "dft_embedded_spectrum c msg = X'"
    by (simp add: dft_embedded_spectrum_def Let_def X'_def M_def X_def)
  have fits: "int (length ?b) \<le> dft_max_bits (length X)" using assms(3) lX by simp
  have rng: "idx < length c div 2"
    using dft_index_in_range [OF fits assms(4)] lX by (simp add: idx_def)
  have pos: "0 < idx" by (simp add: idx_def start_idx_def)
  have i1: "idx < length (ifft X')" using rng lX' by simp
  have i2: "length c - idx < length X'" using pos rng lX' by simp
  have i3: "idx < length X'" using rng lX' by simp
  from dft_embed_loop_inv [OF fits assms(4), of M 0] have
    v: "X' ! idx = complex_of_real amp * cis (Arg (X ! idx))"
    and w: "X' ! (length c - idx) = cnj (complex_of_real amp * cis (Arg (X ! idx)))"
    by (simp_all add: X'_def idx_def amp_def lX)
  have M1: "1 \<le> M" unfolding M_def X_def by (rule normalized_spectrum_peak [OF assms(1,2)])
  have amp_eq: "amp = (if ?b ! t then dft_bit1_value else dft_bit0_value)"
    using M1 by (simp add: amp_def dft_bit1_value_def dft_bit0_value_def min_def)
  have amp0: "0 \<le> amp" unfolding amp_eq by (simp add: dft_bit1_value_def dft_bit0_value_def)
  have "fft (map complex_of_real (dft_modified_channel c msg)) ! idx
          = (fft (ifft X') ! idx + cnj (fft (ifft X') ! (length (ifft X') - idx))) / 2"
    unfolding dft_modified_channel_def spec by (rule fft_real_part [OF pos i1])
  also have "\<dots> = (X' ! idx + cnj (X' ! (length c - idx))) / 2"
    using fft_ifft_nth [OF i3] fft_ifft_nth [OF i2] lX' by simp
  also have "\<dots> = X' ! idx" unfolding v w by simp
  finally have "cmod (fft (map complex_of_real (dft_modified_channel c msg)) ! idx) = amp"
    unfolding v using amp0 by (simp add: norm_mult)
  then show ?thesis unfolding amp_eq idx_def .
qed

lemma dft_bits_embedded:
  assumes "dft_embed_channel c msg = Inr out"
    and "max_abs (dft_modified_channel c msg) < 2"
  shows "length out = length c"
    and "take (length (text_to_binary msg @ END_MARKER)) (dft_bits (fft (map complex_of_real out)))
           = text_to_binary msg @ END_MARKER"
proof -
  let ?b = "text_to_binary msg @ END_MARKER"
  let ?y = "dft_modified_channel c msg"
  note r = dft_embed_channel_Inr [OF assms(1)]
  define s where "s = (if max_abs ?y > 1 then max_abs ?y else 1)"
  have s1: "1 \<le> s" and s2: "s < 2" using assms(2) by (simp_all add: s_def)
  have out: "out = (if max_abs ?y > 1 then map (\<lambda>v. v / s) ?y else ?y)"
    using r(4) by (simp add: s_def)
  show len: "length out = length c"
    unfolding out by (simp add: length_dft_modified_channel)
  have bin: "cmod (fft (map complex_of_real out) ! (start_idx + t * dft_step))
               = (if ?b ! t then dft_bit1_value else dft_bit0_value) / s"
    if t: "t < length ?b" for t
  proof -
    have fits: "int (length ?b) \<le> dft_max_bits (length ?y)"
      using r(3) by (simp add: length_dft_modified_channel)
    have "start_idx + t * dft_step < length ?y div 2"
      by (rule dft_index_in_range [OF fits t])
    then have k: "start_idx + t * dft_step < length ?y" by simp
    have "fft (map complex_of_real out) ! (start_idx + t * dft_step)
            = fft (map complex_of_real ?y) ! (start_idx + t * dft_step) / complex_of_real s"
    proof (cases "max_abs ?y > 1")
      case True
      then show ?thesis unfolding out using fft_scale [OF k, of s] by simp
    next
      case False
      then show ?thesis unfolding out by (simp add: s_def)
    qed
    then show ?thesis
      using s1 by (simp add: norm_divide dft_embedded_bin [OF r(1,2,3) t])
  qed
  show "take (length ?b) (dft_bits (fft (map complex_of_real out))) = ?b"
  proof (rule nth_equalityI)
    have "length ?b \<le> nat (dft_max_bits (length c))" using r(3) by simp
    then show "length (take (length ?b) (dft_bits (fft (map complex_of_real out)))) = length ?b"
      by (simp add: dft_bits_def len)
    fix t assume "t < length (take (length ?b) (dft_bits (fft (map complex_of_real out))))"
    then have t: "t < length ?b" by simp
    then have tn: "t < nat (dft_max_bits (length c))" using r(3) by simp
    have "dft_bits (fft (map complex_of_real out)) ! t
            = (cmod (fft (map complex_of_real out) ! (start_idx + t * dft_step)) > dft_threshold)"
      using tn by (simp add: dft_bits_def len)
    also have "\<dots> = ((if ?b ! t then dft_bit1_value else dft_bit0_value) / s > dft_threshold)"
      by (simp only: bin [OF t])
    also have "\<dots> = ?b ! t"
    proof (cases "?b ! t")
      case True
      have "5 / 1000 * s < 1 / 100" using s2 by simp
      then have "5 / 1000 < 1 / 100 / s" using s1 by (simp add: field_simps)
      then show ?thesis using True by (simp add: dft_bit1_value_def dft_threshold_def)
    next
      case False
      have "1 / 1000 \<le> 5 / 1000 * s" using s1 by simp
      then have "1 / 1000 / s \<le> 5 / 1000" using s1 by (simp add: field_simps)
      then show ?thesis using False by (simp add: dft_bit0_value_def dft_threshold_def)
    qed
    finally show "take (length ?b) (dft_bits (fft (map complex_of_real out))) ! t = ?b ! t"
      using t by simp
  qed
qed

lemma dft_round_trip:
  assumes "dft_embed_channel c msg = Inr out"
    and "max_abs (dft_modified_channel c msg) < 2"
    and "marker_only_at_end (text_to_binary msg @ END_MARKER)"
    and "\<forall>ch \<in> set msg. ch \<le> 255"
  shows "dft_extract_channel out = Inr msg"
proof -
  note r = dft_embed_channel_Inr [OF assms(1)]
  note b = dft_bits_embedded [OF assms(1,2)]
  have "16 \<le> dft_max_bits (length c)" using r(3) framed_length_ge [of msg] by simp
  then have "2018 < length c"
    by (simp add: dft_max_bits_def start_idx_def dft_step_def)
  then have long: "2018 < length out" using b(1) by simp
  have s: "scan (dft_bits (fft (map complex_of_real out))) [] = text_to_binary msg"
    using b(2) assms(3) by (rule scan_framed)
  have "\<forall>ch \<in> set msg. ch < 256" using assms(4) by auto
  then have d: "binary_to_text (text_to_binary msg) = Inr msg"
    by (rule binary_to_text_text_to_binary)
  show ?thesis unfolding dft_extract_channel_scan [OF long] s d ..
qed

lemma dft_embed_loop_entries:
  assumes "0 \<le> M" "k < length X"
  shows "dft_embed_loop b M i X ! k = X ! k \<or> cmod (dft_embed_loop b M i X ! k) \<le> 1 / 100"
  using assms
proof (induction b M i X rule: dft_embed_loop.induct)
  case (1 b M i X)
  show ?case
  proof (cases "i < length b \<and> \<not> length X div 2 \<le> start_idx + i * dft_step")
    case False
    then show ?thesis by (subst (1 2) dft_embed_loop.simps) (auto simp: Let_def)
  next
    case True
    then have a: "i < length b" and nb: "\<not> length X div 2 \<le> start_idx + i * dft_step"
      by auto
    define amp where "amp = min (if b ! i then dft_bit1_value else dft_bit0_value) (M * (1 / 10))"
    define new where "new = complex_of_real amp * cis (Arg (X ! (start_idx + i * dft_step)))"
    define X1 where "X1 = X[start_idx + i * dft_step := new]"
    define X2 where "X2 = X1[length X1 - (start_idx + i * dft_step)
                              := cnj (X1 ! (start_idx + i * dft_step))]"
    have amp0: "0 \<le> amp" using "1.prems"(1)
      by (simp add: amp_def dft_bit1_value_def dft_bit0_value_def)
    have amp1: "amp \<le> 1 / 100"
      by (simp add: amp_def dft_bit1_value_def dft_bit0_value_def min_def)
    have cn: "cmod new \<le> 1 / 100" using amp0 amp1 by (simp add: new_def norm_mult)
    have in1: "start_idx + i * dft_step < length X" using nb by simp
    have X1i: "X1 ! (start_idx + i * dft_step) = new" using in1 by (simp add: X1_def)
    have len2: "length X2 = length X" by (simp add: X2_def X1_def)
    have step: "dft_embed_loop b M i X = dft_embed_loop b M (i + 1) X2"
      using a nb
      by (subst dft_embed_loop.simps) (simp add: Let_def X2_def X1_def new_def amp_def)
    have k2: "k < length X2" using "1.prems"(2) len2 by simp
    note IH = "1.IH" [OF a refl nb refl refl refl refl refl, folded amp_def, folded new_def,
        folded X1_def, folded X2_def, OF "1.prems"(1) k2]
    have "X2 ! k = X ! k \<or> cmod (X2 ! k) \<le> 1 / 100"
    proof (cases "k = length X1 - (start_idx + i * dft_step)")
      case True
      then have "X2 ! k = cnj new" using k2 by (simp add: X2_def X1i)
      then show ?thesis using cn by simp
    next
      case False
      then have e: "X2 ! k = X1 ! k" by (simp add: X2_def)
      show ?thesis
      proof (cases "k = start_idx + i * dft_step")
        case True
        then show ?thesis using e X1i cn by simp
      next
        case False
        then show ?thesis using e by (simp add: X1_def)
      qed
    qed
    then show ?thesis unfolding step using IH by auto
  qed
qed

lemma dft_modified_peak_bound:
  assumes "c \<noteq> []" "max_abs c \<noteq> 0"
  shows "max_abs (dft_modified_channel c msg)
           \<le> (\<Sum>k < length c.
                 cmod (fft (map complex_of_real (map (\<lambda>v. v / max_abs c) c)) ! k))
               / real (length c) + 1 / 100"
proof -
  define N where "N = length c"
  define X where "X = fft (map complex_of_real (map (\<lambda>v. v / max_abs c) c))"
  define M where "M = max_abs (map cmod X)"
  define X' where "X' = dft_embed_loop (text_to_binary msg @ END_MARKER) M 0 X"
  have N0: "0 < real N" using assms(1) by (simp add: N_def)
  have lX: "length X = N" by (simp add: X_def N_def)
  have lX': "length X' = N" by (simp add: X'_def length_dft_embed_loop lX)
  have spec: "dft_embedded_spectrum c msg = X'"
    by (simp add: dft_embedded_spectrum_def Let_def X'_def M_def X_def)
  have "X \<noteq> []" using lX assms(1) by (auto simp: N_def)
  then have M0: "0 \<le> M" unfolding M_def by (intro max_abs_nonneg) simp
  have entry: "cmod (X' ! k) \<le> cmod (X ! k) + 1 / 100" if "k < N" for k
  proof -
    have "k < length X" using that lX by simp
    from dft_embed_loop_entries [OF M0 this] have
      "X' ! k = X ! k \<or> cmod (X' ! k) \<le> 1 / 100" by (simp add: X'_def)
    then show ?thesis
    proof
      assume "X' ! k = X ! k"
      then show ?thesis by simp
    next
      assume "cmod (X' ! k) \<le> 1 / 100"
      moreover have "0 \<le> cmod (X ! k)" by simp
      ultimately show ?thesis by linarith
    qed
  qed
  have sample: "\<bar>dft_modified_channel c msg ! n\<bar> \<le> (\<Sum>k < N. cmod (X ! k)) / real N + 1 / 100"
    if n: "n < N" for n
  proof -
    have "dft_modified_channel c msg ! n = Re (ifft X' ! n)"
      using n lX' by (simp add: dft_modified_channel_def spec)
    then have "\<bar>dft_modified_channel c msg ! n\<bar> \<le> cmod (ifft X' ! n)"
      by (simp add: abs_Re_le_cmod)
    also have "\<dots> = cmod (\<Sum>k < N. X' ! k * cis (2 * pi * (real k * real n) / real N)) / real N"
      using n lX' by (simp add: ifft_nth norm_divide)
    also have "\<dots> \<le> (\<Sum>k < N. cmod (X' ! k * cis (2 * pi * (real k * real n) / real N))) / real N"
      using N0 by (intro divide_right_mono norm_sum) simp
    also have "\<dots> = (\<Sum>k < N. cmod (X' ! k)) / real N"
      by (simp add: norm_mult)
    also have "\<dots> \<le> (\<Sum>k < N. cmod (X ! k) + 1 / 100) / real N"
      using N0 entry by (intro divide_right_mono sum_mono) simp_all
    also have "\<dots> = (\<Sum>k < N. cmod (X ! k)) / real N + 1 / 100"
      using N0 by (simp add: sum.distrib add_divide_distrib)
    finally show ?thesis .
  qed
  have ne: "dft_modified_channel c msg \<noteq> []"
    using length_dft_modified_channel [of c msg] assms(1) by auto
  from max_abs_attained [OF ne] obtain n where
    n: "n < length (dft_modified_channel c msg)"
    and m: "\<bar>dft_modified_channel c msg ! n\<bar> = max_abs (dft_modified_channel c msg)"
    by blast
  have "n < N" using n by (simp add: length_dft_modified_channel N_def)
  from sample [OF this] show ?thesis unfolding m X_def N_def .
qed

section \<open>The round trip\<close>

lemma max_abs_impulse: "max_abs (1 # replicate n 0) = 1"
  unfolding max_abs_def
proof (rule Max_eqI)
  show "finite (set (map abs (1 # replicate n (0::real))))" by (rule finite_set)
  show "1 \<in> set (map abs (1 # replicate n (0::real)))" by simp
  fix y :: real assume "y \<in> set (map abs (1 # replicate n 0))"
  then have "y = 1 \<or> y = 0" by (auto split: if_splits)
  then show "y \<le> 1" by auto
qed

lemma fft_impulse:
  assumes "k < Suc n"
  shows "fft (map complex_of_real (1 # replicate n 0)) ! k = 1"
proof -
  let ?x = "map complex_of_real (1 # replicate n 0)"
  have "fft ?x ! k
          = (\<Sum>j < Suc n. ?x ! j * cis (- (2 * pi * (real k * real j) / real (length ?x))))"
    using assms by (simp add: fft_nth)
  also have "\<dots> = ?x ! 0 * cis (- (2 * pi * (real k * real 0) / real (length ?x)))
                 + (\<Sum>j < n. ?x ! Suc j
                      * cis (- (2 * pi * (real k * real (Suc j)) / real (length ?x))))"
    by (rule sum.lessThan_Suc_shift)
  also have "\<dots> = 1" by simp
  finally show ?thesis .
qed

lemma dft_impulse_peak: "max_abs (dft_modified_channel (1 # replicate n 0) msg) < 2"
proof -
  let ?c = "1 # replicate n (0::real)"
  have ne: "?c \<noteq> []" by simp
  have p: "max_abs ?c \<noteq> 0" by (simp add: max_abs_impulse)
  have norm: "map (\<lambda>v. v / max_abs ?c) ?c = ?c"
    unfolding max_abs_impulse by simp
  have "(\<Sum>k < length ?c. cmod (fft (map complex_of_real (map (\<lambda>v. v / max_abs ?c) ?c)) ! k))
          = (\<Sum>k < Suc n. 1)"
    unfolding norm by (rule sum.cong) (simp_all add: fft_impulse del: list.map)
  also have "\<dots> = real (length ?c)" by simp
  finally have "(\<Sum>k < length ?c. cmod (fft (map complex_of_real (map (\<lambda>v. v / max_abs ?c) ?c)) ! k))
                  / real (length ?c) = 1"
    by simp
  with dft_modified_peak_bound [OF ne p, of msg] show ?thesis by simp
qed







section \<open>The empty message\<close>

text \<open>
  C4 as the specification states it: a buffer in which the empty message was embedded
  extracts to the empty string. The cosine and the wavelet strategy embed the empty
  message into a silent channel without error, and extracting from the result returns
  the failure string.
\<close>

theorem empty_message_counterexample:
  "(case dct_embed_channel (replicate 16384 0) [] of
      Inl e \<Rightarrow> Inl e | Inr out \<Rightarrow> Inr (dct_extract_channel out)) = Inr extraction_failed
   \<and> (case dwt_embed_channel (replicate 25600 0) [] of
      Inl e \<Rightarrow> Inl e | Inr out \<Rightarrow> dwt_extract_channel out) = Inr extraction_failed
   \<and> extraction_failed \<noteq> []"
proof -
  have m: "marker_only_at_end (text_to_binary [] @ END_MARKER)"
    using marker_only_at_end_marker by (simp add: text_to_binary_def)
  have s: "\<forall>ch \<in> set ([]::nat list). ch \<le> 255" by simp
  have "length (text_to_binary [] @ END_MARKER) \<le> length (replicate 16384 (0::real)) div block_size"
    by (simp add: text_to_binary_def length_END_MARKER block_size_def)
  from dct_embed_channel_fits [OF this] obtain out where
    e: "dct_embed_channel (replicate 16384 0) [] = Inr out" by blast
  have 1: "(case dct_embed_channel (replicate 16384 0) [] of
      Inl e \<Rightarrow> Inl e | Inr out \<Rightarrow> Inr (dct_extract_channel out)) = Inr extraction_failed"
    unfolding e using dct_round_trip [OF e m s] by simp
  have ne: "replicate 25600 (0::real) \<noteq> []" by simp
  have "length (text_to_binary [] @ END_MARKER)
          \<le> length (wavedec (replicate 25600 0) level ! subband_idx) div dwt_step"
    unfolding target_subband
    by (simp add: numeral_3_eq_3 dwt_zero text_to_binary_def length_END_MARKER dwt_step_def)
  from dwt_embed_channel_result [OF ne this] obtain out2 where
    e2: "dwt_embed_channel (replicate 25600 0) [] = Inr out2" by blast
  have 2: "(case dwt_embed_channel (replicate 25600 0) [] of
      Inl e \<Rightarrow> Inl e | Inr out \<Rightarrow> dwt_extract_channel out) = Inr extraction_failed"
    unfolding e2 using dwt_round_trip [OF e2 m s] by simp
  show ?thesis using 1 2 extraction_failed_nonempty by blast
qed

text \<open>
  C4, amended. The failure string is not the empty string and is not the decoding of
  any bit string, so a failure can be told from a decoded empty text. But the cosine and
  the wavelet strategy return the failure string whenever the bit string left after
  stripping the marker is empty: from a buffer in which the empty message was embedded,
  and from any buffer whose first 16 scanned bits are the marker. The extraction loop of
  the frequency strategy leaves the empty bit string in that case, which its
  \<open>extract\<close> decodes to the empty text; it returns the empty text from a buffer in
  which it embedded the empty message, provided the peak of the embedded signal before
  the final renormalisation is below 2. The transforms are computed exactly.
\<close>

theorem empty_message_extraction:
  "(dct_embed_channel c1 [] = Inr out1 \<longrightarrow> dct_extract_channel out1 = extraction_failed)
   \<and> (dwt_embed_channel c2 [] = Inr out2 \<longrightarrow> dwt_extract_channel out2 = Inr extraction_failed)
   \<and> (take 16 (dct_bits ch1) = END_MARKER \<longrightarrow> dct_extract_channel ch1 = extraction_failed)
   \<and> (ch2 \<noteq> [] \<and> take 16 (dwt_bits (wavedec ch2 level ! subband_idx)) = END_MARKER
        \<longrightarrow> dwt_extract_channel ch2 = Inr extraction_failed)
   \<and> (take 16 (dft_bits X) = END_MARKER
        \<longrightarrow> binary_to_text (dft_extract_loop X (dft_max_bits (length X)) 0 []) = Inr [])
   \<and> (dft_embed_channel c3 [] = Inr out3 \<and> max_abs (dft_modified_channel c3 []) < 2
        \<longrightarrow> dft_extract_channel out3 = Inr [])
   \<and> extraction_failed \<noteq> []
   \<and> binary_to_text bs \<noteq> Inr extraction_failed"
proof (intro conjI impI)
  have m: "marker_only_at_end (text_to_binary [] @ END_MARKER)"
    using marker_only_at_end_marker by (simp add: text_to_binary_def)
  have s: "\<forall>ch \<in> set ([]::nat list). ch \<le> 255" by simp
  {
    assume e: "dct_embed_channel c1 [] = Inr out1"
    show "dct_extract_channel out1 = extraction_failed"
      using dct_round_trip [OF e m s] by simp
  }
  {
    assume e: "dwt_embed_channel c2 [] = Inr out2"
    show "dwt_extract_channel out2 = Inr extraction_failed"
      using dwt_round_trip [OF e m s] by simp
  }
  {
    assume "take 16 (dct_bits ch1) = END_MARKER"
    then show "dct_extract_channel ch1 = extraction_failed"
      unfolding dct_extract_channel_scan by (simp add: scan_marker_first)
  }
  {
    assume "ch2 \<noteq> [] \<and> take 16 (dwt_bits (wavedec ch2 level ! subband_idx)) = END_MARKER"
    then show "dwt_extract_channel ch2 = Inr extraction_failed"
      using dwt_extract_channel_scan [of ch2] by (simp add: scan_marker_first)
  }
  {
    assume "take 16 (dft_bits X) = END_MARKER"
    then show "binary_to_text (dft_extract_loop X (dft_max_bits (length X)) 0 []) = Inr []"
      unfolding dft_extract_loop_bits by (simp add: scan_marker_first binary_to_text_total)
  }
  {
    assume a: "dft_embed_channel c3 [] = Inr out3 \<and> max_abs (dft_modified_channel c3 []) < 2"
    then have e: "dft_embed_channel c3 [] = Inr out3"
      and pk: "max_abs (dft_modified_channel c3 []) < 2" by simp_all
    show "dft_extract_channel out3 = Inr []"
      by (rule dft_round_trip [OF e pk m s])
  }
  show "extraction_failed \<noteq> []" by (rule extraction_failed_nonempty)
  show "binary_to_text bs \<noteq> Inr extraction_failed" by (rule binary_to_text_not_failed)
qed

theorem empty_message_extraction_witness:
  "dct_extract_channel (projr (dct_embed_channel (replicate 16384 0) [])) = extraction_failed
   \<and> dwt_extract_channel (projr (dwt_embed_channel (replicate 25600 0) []))
       = Inr extraction_failed
   \<and> binary_to_text
        (dft_extract_loop (map (\<lambda>k. if 2000 \<le> k \<and> k < 2030 then 1 else 0) [0 ..< 4064])
           (dft_max_bits (length (map (\<lambda>k. if 2000 \<le> k \<and> k < 2030 then 1 else (0::complex))
                                    [0 ..< 4064]))) 0 [])
       = Inr []
   \<and> dft_extract_channel (projr (dft_embed_channel (1 # replicate 4063 0) [])) = Inr []"
proof -
  let ?X = "map (\<lambda>k. if 2000 \<le> k \<and> k < 2030 then 1 else (0::complex)) [0 ..< 4064]"
  have "length (text_to_binary [] @ END_MARKER) \<le> length (replicate 16384 (0::real)) div block_size"
    by (simp add: text_to_binary_def length_END_MARKER block_size_def)
  from dct_embed_channel_fits [OF this] obtain out1 where
    e1: "dct_embed_channel (replicate 16384 0) [] = Inr out1" by blast
  have ne: "replicate 25600 (0::real) \<noteq> []" by simp
  have "length (text_to_binary [] @ END_MARKER)
          \<le> length (wavedec (replicate 25600 0) level ! subband_idx) div dwt_step"
    unfolding target_subband
    by (simp add: numeral_3_eq_3 dwt_zero text_to_binary_def length_END_MARKER dwt_step_def)
  from dwt_embed_channel_result [OF ne this] obtain out2 where
    e2: "dwt_embed_channel (replicate 25600 0) [] = Inr out2" by blast
  have n: "nat (dft_max_bits (length ?X)) = 16"
    by (simp add: dft_max_bits_def start_idx_def dft_step_def)
  have u: "[0 ..< 16] = [0, 1, 2, 3, 4, 5, 6, 7, 8, 9, 10, 11, 12, 13, 14, 15::nat]"
    by (simp add: upt_rec)
  have x: "take 16 (dft_bits ?X) = END_MARKER"
    unfolding dft_bits_def n u
    by (simp add: start_idx_def dft_step_def dft_threshold_def END_MARKER_def)
  have "int (length (text_to_binary [] @ END_MARKER))
          \<le> dft_max_bits (length (1 # replicate 4063 (0::real)))"
    by (simp add: text_to_binary_def length_END_MARKER dft_max_bits_def start_idx_def
        dft_step_def)
  moreover have "\<exists>x \<in> set (1 # replicate 4063 (0::real)). x \<noteq> 0" by simp
  ultimately obtain out3 where
    e3: "dft_embed_channel (1 # replicate 4063 0) [] = Inr out3"
    using dft_embed_channel_ok by blast
  note t = empty_message_extraction [of "replicate 16384 0" out1 "replicate 25600 0" out2
      out1 out2 ?X "1 # replicate 4063 0" out3]
  have 1: "dct_extract_channel out1 = extraction_failed" using t e1 by blast
  have 2: "dwt_extract_channel out2 = Inr extraction_failed" using t e2 by blast
  have 3: "binary_to_text (dft_extract_loop ?X (dft_max_bits (length ?X)) 0 []) = Inr []"
    using t x by blast
  have 4: "dft_extract_channel out3 = Inr []"
    using t e3 dft_impulse_peak [of 4063 "[]"] by blast
  show ?thesis using 1 2 3 4 by (simp add: e1 e2 e3)
qed

section \<open>The capacity boundary\<close>

lemma first_with_first_channel:
  assumes "wf_audio a" "first_channel a = Samples c" "length out = length c"
  shows "first_channel (with_first_channel a (Samples out)) = Samples out"
proof (cases a)
  case (Mono xs)
  then show ?thesis by (simp add: with_first_channel_def first_channel_def)
next
  case (Stereo rows)
  then have l: "length rows = length out" using assms(2,3) by (auto simp: first_channel_def)
  have ne: "\<forall>r \<in> set rows. r \<noteq> []"
    using assms(1) Stereo by (simp add: wf_audio_def list_all_iff)
  have "map (\<lambda>r. r ! 0) (map2 (\<lambda>r v. r[0 := v]) rows out) = out"
  proof (rule nth_equalityI)
    show "length (map (\<lambda>r. r ! 0) (map2 (\<lambda>r v. r[0 := v]) rows out)) = length out"
      using l by simp
  next
    fix i assume "i < length (map (\<lambda>r. r ! 0) (map2 (\<lambda>r v. r[0 := v]) rows out))"
    then have i: "i < length rows" "i < length out" using l by simp_all
    then have "rows ! i \<noteq> []" using ne by simp
    then show "map (\<lambda>r. r ! 0) (map2 (\<lambda>r v. r[0 := v]) rows out) ! i = out ! i"
      using i by simp
  qed
  then show ?thesis using Stereo by (simp add: with_first_channel_def first_channel_def)
next
  case (NaNMono n)
  then show ?thesis using assms(2) by (simp add: first_channel_def)
next
  case (NaNStereo rows)
  then show ?thesis using assms(2) by (simp add: first_channel_def)
qed

lemma first_with_nan_channel:
  assumes "first_channel a = Samples c"
  shows "first_channel (with_first_channel a (NaNs (length c))) = NaNs (length c)"
  using assms by (cases a) (auto simp: with_first_channel_def first_channel_def)

lemma array_size_with_first_channel:
  assumes "wf_audio a" "first_channel a = Samples c" "length out = length c" "out \<noteq> []"
  shows "array_size (with_first_channel a (Samples out)) \<noteq> 0"
proof (cases a)
  case (Mono xs)
  then show ?thesis using assms(4) by (simp add: with_first_channel_def array_size_def)
next
  case (Stereo rows)
  then have l: "length rows = length out" using assms(2,3) by (auto simp: first_channel_def)
  then obtain r rs where rows: "rows = r # rs" using assms(4) by (cases rows) auto
  obtain v vs where out: "out = v # vs" using assms(4) by (cases out) auto
  have "r \<noteq> []" using assms(1) Stereo rows by (simp add: wf_audio_def)
  then show ?thesis using Stereo rows out
    by (simp add: with_first_channel_def array_size_def)
next
  case (NaNMono n)
  then show ?thesis using assms(2) by (simp add: first_channel_def)
next
  case (NaNStereo rows)
  then show ?thesis using assms(2) by (simp add: first_channel_def)
qed

lemma array_size_with_nan_channel:
  assumes "first_channel a = Samples c" "c \<noteq> []"
  shows "array_size (with_first_channel a (NaNs (length c))) \<noteq> 0"
  using assms by (cases a) (auto simp: with_first_channel_def first_channel_def array_size_def)

lemma embed_writes:
  assumes "array_size (with_first_channel a ch) \<noteq> 0"
  shows "(case save_audio fs p rate (with_first_channel a ch) of
            Inl e \<Rightarrow> (fs, Inl e)
          | Inr fs' \<Rightarrow> (fs', Inr (a, with_first_channel a ch)))
           = embed_result fs p rate a ch"
  using assms by (simp add: save_audio_def embed_result_def Let_def)

lemma length_dct_bits: "length (dct_bits c) = length c div block_size"
  by (simp add: dct_bits_def)

lemma dct_embed_at_capacity:
  assumes "fs audio_path = Some (Wav rate a)" "wf_audio a" "first_channel a = Samples c"
    and "length (text_to_binary msg @ END_MARKER) = length c div block_size"
  shows "\<exists>out. dct_embed fs audio_path msg output_path
                  = embed_result fs output_path rate a (Samples out)
               \<and> first_channel (with_first_channel a (Samples out)) = Samples out
               \<and> length out = length c
               \<and> dct_bits out = text_to_binary msg @ END_MARKER"
proof -
  let ?b = "text_to_binary msg @ END_MARKER"
  let ?out = "dct_embed_loop c ?b (length c div block_size) 0 c"
  have fits: "length ?b \<le> length c div block_size" using assms(4) by simp
  have e: "dct_embed_channel c msg = Inr ?out" by (rule dct_embed_channel_fits [OF fits])
  have nb: "length c div block_size * block_size \<le> length c" by simp
  have len: "length ?out = length c"
    using dct_embed_loop_frame [OF refl nb fits, of 0] by simp
  have "block_size \<le> length c"
    using fits framed_length_ge [of msg] by (simp add: block_size_def)
  then have ne: "?out \<noteq> []" using len by (auto simp: block_size_def)
  have w: "dct_embed fs audio_path msg output_path
             = embed_result fs output_path rate a (Samples ?out)"
    using embed_writes [OF array_size_with_first_channel [OF assms(2,3) len ne],
        of fs output_path rate]
    by (simp add: dct_embed_def read_audio_def assms(1,3) dct_embed_samples_def e Let_def)
  have "take (length ?b) (dct_bits ?out) = ?b" by (rule dct_bits_embedded [OF fits])
  moreover have "length (dct_bits ?out) = length ?b"
    using len assms(4) by (simp add: length_dct_bits del: length_append)
  ultimately have bits: "dct_bits ?out = ?b" by (metis take_all order_refl)
  show ?thesis
    using w first_with_first_channel [OF assms(2,3) len] len bits by blast
qed

lemma dct_embed_over_capacity:
  assumes "fs audio_path = Some (Wav rate a)" "first_channel a = Samples c"
    and "length (text_to_binary msg @ END_MARKER) > length c div block_size"
  shows "dct_embed fs audio_path msg output_path
           = (fs, Inl (CapacityError (int (length c div block_size))))"
  using assms
  by (simp add: dct_embed_def read_audio_def dct_embed_samples_def dct_embed_channel_def Let_def)

lemma length_dwt_bits: "length (dwt_bits s) = length s div dwt_step"
  by (simp add: dwt_bits_def)

lemma dwt_embed_at_capacity:
  assumes "fs audio_path = Some (Wav rate a)" "wf_audio a" "first_channel a = Samples c"
    and "length (text_to_binary msg @ END_MARKER)
           = length (wavedec c level ! subband_idx) div dwt_step"
  shows "\<exists>out. dwt_embed fs audio_path msg output_path
                  = embed_result fs output_path rate a (Samples out)
               \<and> first_channel (with_first_channel a (Samples out)) = Samples out
               \<and> length out = length c
               \<and> dwt_bits (wavedec out level ! subband_idx) = text_to_binary msg @ END_MARKER"
proof -
  let ?b = "text_to_binary msg @ END_MARKER"
  let ?s = "wavedec c level ! subband_idx"
  have ne: "c \<noteq> []"
  proof
    assume "c = []"
    then have "length ?b = 0"
      using assms(4) by (simp add: dwt_capacity_empty del: length_append)
    then show False using framed_length_ge [of msg] by simp
  qed
  have fits: "length ?b \<le> length ?s div dwt_step" using assms(4) by simp
  from dwt_embed_channel_result [OF ne fits] obtain out where
    e: "dwt_embed_channel c msg = Inr out" and len: "length out = length c"
    and sub: "wavedec out level ! subband_idx = dwt_embed_loop ?b 0 ?s" by blast
  have o: "out \<noteq> []" using ne len by auto
  have w: "dwt_embed fs audio_path msg output_path
             = embed_result fs output_path rate a (Samples out)"
    using embed_writes [OF array_size_with_first_channel [OF assms(2,3) len o],
        of fs output_path rate]
    by (simp add: dwt_embed_def read_audio_def assms(1,3) dwt_embed_samples_def e Let_def)
  have "take (length ?b) (dwt_bits (dwt_embed_loop ?b 0 ?s)) = ?b"
    by (rule dwt_bits_embedded [OF fits])
  moreover have "length (dwt_bits (dwt_embed_loop ?b 0 ?s)) = length ?b"
    using assms(4) dwt_embed_loop_length [OF fits] by (simp add: length_dwt_bits del: length_append)
  ultimately have "dwt_bits (dwt_embed_loop ?b 0 ?s) = ?b" by (metis take_all order_refl)
  then have bits: "dwt_bits (wavedec out level ! subband_idx) = ?b" using sub by simp
  show ?thesis
    using w first_with_first_channel [OF assms(2,3) len] len bits by blast
qed

lemma dwt_embed_over_capacity:
  assumes "fs audio_path = Some (Wav rate a)" "first_channel a = Samples c"
    and "length (text_to_binary msg @ END_MARKER)
           = length (wavedec c level ! subband_idx) div dwt_step + 1"
  shows "dwt_embed fs audio_path msg output_path
           = (fs, Inl (CapacityError
                (int (length (wavedec c level ! subband_idx) div dwt_step))))"
proof -
  have ne: "c \<noteq> []"
  proof
    assume "c = []"
    then have "length (text_to_binary msg @ END_MARKER) = 1"
      using assms(3) by (simp add: dwt_capacity_empty del: length_append)
    then show False using framed_length_ge [of msg] by simp
  qed
  show ?thesis
    using assms ne
    by (simp add: dwt_embed_def read_audio_def dwt_embed_samples_def dwt_embed_channel_def
        Let_def)
qed

lemma length_dft_bits: "length (dft_bits X) = nat (dft_max_bits (length X))"
  by (simp add: dft_bits_def)

lemma normalize_nan_channel:
  assumes "first_channel a = Samples c"
  shows "normalize_audio (with_first_channel a (NaNs n)) = with_first_channel a (NaNs n)"
  using assms
  by (cases a) (auto simp: with_first_channel_def first_channel_def normalize_audio_def
      peak_of_def)

lemma binary_to_text_zeros:
  "binary_to_text (replicate k False) = Inr (replicate (k div 8) 0)"
proof -
  have "map (\<lambda>j. int2 (take 8 (drop (8 * j) (replicate k False)))) [0 ..< k div 8]
          = map (\<lambda>j. 0) [0 ..< k div 8]"
    by (rule map_cong) (simp_all add: int2_all_zero)
  then show ?thesis by (simp add: binary_to_text_total map_replicate_const)
qed

lemma dft_extract_loop_nan_scan:
  assumes "max_bits \<le> dft_max_bits n"
  shows "dft_extract_loop_nan n max_bits i acc = scan (replicate (nat max_bits - i) False) acc"
  using assms
proof (induction n max_bits i acc rule: dft_extract_loop_nan.induct)
  case (1 n mb i acc)
  show ?case
  proof (cases "int i < mb")
    case False
    then show ?thesis by (subst dft_extract_loop_nan.simps) simp
  next
    case True
    then have up: "nat mb - i = Suc (nat mb - (i + 1))" by linarith
    have "int i + 1 \<le> (int n div 2 - int start_idx) div int dft_step"
      using True "1.prems" by (simp add: dft_max_bits_def)
    then have "2 * (int i + 1) \<le> int n div 2 - 2000"
      by (simp add: dft_step_def start_idx_def)
    then have inb: "\<not> n div 2 \<le> start_idx + i * dft_step"
      by (simp add: dft_step_def start_idx_def)
    show ?thesis
      using True inb "1.IH" [OF True refl inb refl _ "1.prems"]
      by (subst dft_extract_loop_nan.simps) (simp add: up Let_def)
  qed
qed

lemma dft_extract_nan_zeros:
  assumes "16 \<le> dft_max_bits n"
  shows "dft_extract_nan n = Inr (replicate (nat (dft_max_bits n) div 8) 0)"
proof -
  have "16 \<le> (int n div 2 - 2000) div 2"
    using assms by (simp add: dft_max_bits_def start_idx_def dft_step_def)
  then have n: "4064 \<le> n" by linarith
  have d: "list_all (\<lambda>i. start_idx + i * dft_step < n) [0 ..< 10]"
    using n by (simp add: list_all_iff start_idx_def dft_step_def)
  have l: "dft_extract_loop_nan n (dft_max_bits n) 0 [] = replicate (nat (dft_max_bits n)) False"
    using dft_extract_loop_nan_scan [of "dft_max_bits n" n 0 "[]"]
    by (simp add: scan_marker_free marker_free_zeros)
  show ?thesis
    using n d by (simp add: dft_extract_nan_def Let_def l binary_to_text_zeros)
qed

lemma dft_embed_at_capacity:
  assumes "fs audio_path = Some (Wav rate a)" "wf_audio a" "first_channel a = Samples c"
    and "int (length (text_to_binary msg @ END_MARKER)) = dft_max_bits (length c)"
    and "\<exists>x \<in> set c. x \<noteq> 0"
  shows "\<exists>out. dft_embed fs audio_path msg output_path
                  = embed_result fs output_path rate a (Samples out)
               \<and> first_channel (with_first_channel a (Samples out)) = Samples out
               \<and> length out = length c
               \<and> (max_abs (dft_modified_channel c msg) < 2
                    \<longrightarrow> dft_bits (fft (map complex_of_real out))
                          = text_to_binary msg @ END_MARKER)"
proof -
  let ?b = "text_to_binary msg @ END_MARKER"
  have fits: "int (length ?b) \<le> dft_max_bits (length c)" using assms(4) by simp
  from dft_embed_channel_ok [OF fits assms(5)] obtain out where
    e: "dft_embed_channel c msg = Inr out" and len: "length out = length c" by blast
  have ne: "c \<noteq> []" using assms(5) by auto
  have o: "out \<noteq> []" using ne len by auto
  have w: "dft_embed fs audio_path msg output_path
             = embed_result fs output_path rate a (Samples out)"
    using embed_writes [OF array_size_with_first_channel [OF assms(2,3) len o],
        of fs output_path rate]
    by (simp add: dft_embed_def read_audio_def assms(1,3) dft_embed_samples_def e Let_def)
  have bits: "dft_bits (fft (map complex_of_real out)) = ?b"
    if pk: "max_abs (dft_modified_channel c msg) < 2"
  proof -
    have "take (length ?b) (dft_bits (fft (map complex_of_real out))) = ?b"
      by (rule dft_bits_embedded(2) [OF e pk])
    moreover have "length (dft_bits (fft (map complex_of_real out))) = length ?b"
      using assms(4) len by (simp add: length_dft_bits del: length_append)
    ultimately show ?thesis by (metis take_all order_refl)
  qed
  show ?thesis
    using w first_with_first_channel [OF assms(2,3) len] len bits by blast
qed

lemma dft_embed_silent_at_capacity:
  assumes "fs audio_path = Some (Wav rate a)" "first_channel a = Samples c"
    and "int (length (text_to_binary msg @ END_MARKER)) = dft_max_bits (length c)"
    and "\<not> (\<exists>x \<in> set c. x \<noteq> 0)"
  shows "dft_embed fs audio_path msg output_path
           = embed_result fs output_path rate a (NaNs (length c))"
    and "first_channel (with_first_channel a (NaNs (length c))) = NaNs (length c)"
    and "dft_extract (fst (dft_embed fs audio_path msg output_path)) output_path
           = Inr (replicate (length (text_to_binary msg @ END_MARKER) div 8) 0)"
proof -
  let ?b = "text_to_binary msg @ END_MARKER"
  let ?m = "with_first_channel a (NaNs (length c))"
  have cap: "16 \<le> dft_max_bits (length c)"
    using assms(3) framed_length_ge [of msg] by simp
  then have "15 \<le> dft_max_bits (length c)" by simp
  then have ne: "c \<noteq> []" by (rule dft_capacity_nonempty)
  have "max_abs c = 0" using max_abs_zero_iff [OF ne] assms(4) by blast
  then have e: "dft_embed_channel c msg = Inl NaNSamples"
    using ne assms(3) by (simp add: dft_embed_channel_def Let_def del: length_append)
  show w: "dft_embed fs audio_path msg output_path
             = embed_result fs output_path rate a (NaNs (length c))"
    using embed_writes [OF array_size_with_nan_channel [OF assms(2) ne], of fs output_path rate]
    by (simp add: dft_embed_def read_audio_def assms(1,2) dft_embed_samples_def e Let_def)
  show f: "first_channel ?m = NaNs (length c)"
    by (rule first_with_nan_channel [OF assms(2)])
  have "dft_extract (fst (dft_embed fs audio_path msg output_path)) output_path
          = dft_extract_nan (length c)"
    unfolding w
    by (simp add: embed_result_def Let_def dft_extract_def read_audio_def
        normalize_nan_channel [OF assms(2)] f)
  also have "\<dots> = Inr (replicate (nat (dft_max_bits (length c)) div 8) 0)"
    by (rule dft_extract_nan_zeros [OF cap])
  also have "nat (dft_max_bits (length c)) = length ?b" using assms(3) by linarith
  finally show "dft_extract (fst (dft_embed fs audio_path msg output_path)) output_path
                  = Inr (replicate (length ?b div 8) 0)" .
qed

lemma dft_embed_over_capacity:
  assumes "fs audio_path = Some (Wav rate a)" "first_channel a = Samples c"
    and "int (length (text_to_binary msg @ END_MARKER)) = dft_max_bits (length c) + 1"
  shows "dft_embed fs audio_path msg output_path
           = (fs, Inl (CapacityError (dft_max_bits (length c))))"
proof -
  have "15 \<le> dft_max_bits (length c)"
    using assms(3) framed_length_ge [of msg] by simp
  then have ne: "c \<noteq> []" by (rule dft_capacity_nonempty)
  have e: "dft_embed_channel c msg = Inl (CapacityError (dft_max_bits (length c)))"
    using ne assms(3) by (simp add: dft_embed_channel_def Let_def del: length_append)
  show ?thesis
    by (simp add: dft_embed_def read_audio_def assms(1,2) dft_embed_samples_def e
        CapacityError_def)
qed

text \<open>
  C2 as the specification states it: for every input buffer, a message whose framed bit
  length equals the capacity embeds successfully. A silent channel of 4128 samples has
  capacity 32 in the frequency strategy, the framed length of the message "Hi".
  \<open>embed\<close> does not raise, but the 4128 samples that it writes and returns are NaN,
  and \<open>extract\<close> on the file written returns four NUL characters.
\<close>

theorem capacity_boundary_counterexample:
  "int (length (text_to_binary [72, 105] @ END_MARKER))
     = dft_max_bits (length (replicate 4128 (0::real)))
   \<and> dft_embed [''in.wav'' \<mapsto> Wav 44100 (Mono (replicate 4128 0))] ''in.wav'' [72, 105]
        ''out.wav''
      = ([''in.wav'' \<mapsto> Wav 44100 (Mono (replicate 4128 0)),
          ''out.wav'' \<mapsto> Wav 44100 (NaNMono 4128)],
         Inr (Mono (replicate 4128 0), NaNMono 4128))
   \<and> dft_extract [''in.wav'' \<mapsto> Wav 44100 (Mono (replicate 4128 0)),
                   ''out.wav'' \<mapsto> Wav 44100 (NaNMono 4128)] ''out.wav''
      = Inr [0, 0, 0, 0]
   \<and> Inr [0, 0, 0, 0] \<noteq> (Inr [72, 105] :: error + str)"
proof -
  let ?fs = "[''in.wav'' \<mapsto> Wav 44100 (Mono (replicate 4128 (0::real)))]"
  have f: "length (text_to_binary [72, 105] @ END_MARKER) = 32"
    by (simp add: length_text_to_binary length_END_MARKER)
  have fl: "?fs ''in.wav'' = Some (Wav 44100 (Mono (replicate 4128 0)))" by simp
  have fc: "first_channel (Mono (replicate 4128 (0::real))) = Samples (replicate 4128 0)"
    by (simp add: first_channel_def)
  have cap: "int (length (text_to_binary [72, 105] @ END_MARKER))
               = dft_max_bits (length (replicate 4128 (0::real)))"
    unfolding f by (simp add: dft_max_bits_def start_idx_def dft_step_def)
  have z: "\<not> (\<exists>x \<in> set (replicate 4128 (0::real)). x \<noteq> 0)" by simp
  have r: "embed_result ?fs ''out.wav'' 44100 (Mono (replicate 4128 0)) (NaNs 4128)
             = (?fs(''out.wav'' \<mapsto> Wav 44100 (NaNMono 4128)),
                Inr (Mono (replicate 4128 0), NaNMono 4128))"
    by (simp add: embed_result_def with_first_channel_def normalize_audio_def peak_of_def
        Let_def)
  note s1 = dft_embed_silent_at_capacity(1) [where fs = ?fs and audio_path = "''in.wav''"
      and output_path = "''out.wav''", OF fl fc cap z]
  note s3 = dft_embed_silent_at_capacity(3) [where fs = ?fs and audio_path = "''in.wav''"
      and output_path = "''out.wav''", OF fl fc cap z]
  have r4: "replicate 4 (0::nat) = [0, 0, 0, 0]" by (simp add: numeral_eq_Suc)
  have 1: "dft_embed ?fs ''in.wav'' [72, 105] ''out.wav''
             = (?fs(''out.wav'' \<mapsto> Wav 44100 (NaNMono 4128)),
                Inr (Mono (replicate 4128 0), NaNMono 4128))"
    using s1 r by simp
  have 2: "dft_extract (?fs(''out.wav'' \<mapsto> Wav 44100 (NaNMono 4128))) ''out.wav''
             = Inr [0, 0, 0, 0]"
    using s3 unfolding 1 f by (simp add: r4)
  show ?thesis using cap 1 2 by simp
qed

text \<open>
  C2, amended. \<open>embed\<close> reads the file at \<open>audio_path\<close>, which holds real samples, and
  works on its first channel. With a message whose framed bit length equals the capacity
  of the strategy, the call does not raise: the output file is written and the pair of
  the array read and the modified array is returned; the first channel of the modified
  array is the channel that the strategy computed, as long as the channel read, and the
  bits that the extraction loop reads from it are the framed bits of the message. This
  holds for the cosine and the wavelet strategy on every channel, and for the frequency
  strategy on a channel with a nonzero sample, where the bits are read back provided
  the peak of the embedded signal before the final renormalisation is below 2. On an
  all-zero channel the frequency strategy does not raise either, but the first channel
  that it writes and returns is NaN in every position, and \<open>extract\<close> on the file
  written returns NUL characters. With one bit more than the capacity, every strategy
  raises the \<open>ValueError\<close> of the capacity check on every channel, and the file system
  is as it was before the call: the error comes before anything is written, and the
  samples read are never changed. The transforms are computed exactly.
\<close>

theorem capacity_boundary:
  assumes "fs audio_path = Some (Wav rate a)" and "wf_audio a"
    and "first_channel a = Samples c"
  shows
    "(length (text_to_binary msg @ END_MARKER) = length c div block_size
        \<longrightarrow> (\<exists>out. dct_embed fs audio_path msg output_path
                      = embed_result fs output_path rate a (Samples out)
                   \<and> first_channel (with_first_channel a (Samples out)) = Samples out
                   \<and> length out = length c
                   \<and> dct_bits out = text_to_binary msg @ END_MARKER))
     \<and> (length (text_to_binary msg @ END_MARKER) = length c div block_size + 1
        \<longrightarrow> dct_embed fs audio_path msg output_path
              = (fs, Inl (CapacityError (int (length c div block_size)))))
     \<and> (length (text_to_binary msg @ END_MARKER)
           = length (wavedec c level ! subband_idx) div dwt_step
        \<longrightarrow> (\<exists>out. dwt_embed fs audio_path msg output_path
                      = embed_result fs output_path rate a (Samples out)
                   \<and> first_channel (with_first_channel a (Samples out)) = Samples out
                   \<and> length out = length c
                   \<and> dwt_bits (wavedec out level ! subband_idx)
                       = text_to_binary msg @ END_MARKER))
     \<and> (length (text_to_binary msg @ END_MARKER)
           = length (wavedec c level ! subband_idx) div dwt_step + 1
        \<longrightarrow> dwt_embed fs audio_path msg output_path
              = (fs, Inl (CapacityError
                   (int (length (wavedec c level ! subband_idx) div dwt_step)))))
     \<and> (int (length (text_to_binary msg @ END_MARKER)) = dft_max_bits (length c)
          \<and> (\<exists>x \<in> set c. x \<noteq> 0)
        \<longrightarrow> (\<exists>out. dft_embed fs audio_path msg output_path
                      = embed_result fs output_path rate a (Samples out)
                   \<and> first_channel (with_first_channel a (Samples out)) = Samples out
                   \<and> length out = length c
                   \<and> (max_abs (dft_modified_channel c msg) < 2
                        \<longrightarrow> dft_bits (fft (map complex_of_real out))
                              = text_to_binary msg @ END_MARKER)))
     \<and> (int (length (text_to_binary msg @ END_MARKER)) = dft_max_bits (length c)
          \<and> \<not> (\<exists>x \<in> set c. x \<noteq> 0)
        \<longrightarrow> dft_embed fs audio_path msg output_path
              = embed_result fs output_path rate a (NaNs (length c))
            \<and> first_channel (with_first_channel a (NaNs (length c))) = NaNs (length c)
            \<and> dft_extract (fst (dft_embed fs audio_path msg output_path)) output_path
                = Inr (replicate (length (text_to_binary msg @ END_MARKER) div 8) 0))
     \<and> (int (length (text_to_binary msg @ END_MARKER)) = dft_max_bits (length c) + 1
        \<longrightarrow> dft_embed fs audio_path msg output_path
              = (fs, Inl (CapacityError (dft_max_bits (length c)))))"
proof (intro conjI impI)
  assume "length (text_to_binary msg @ END_MARKER) = length c div block_size"
  then show "\<exists>out. dct_embed fs audio_path msg output_path
                      = embed_result fs output_path rate a (Samples out)
                   \<and> first_channel (with_first_channel a (Samples out)) = Samples out
                   \<and> length out = length c
                   \<and> dct_bits out = text_to_binary msg @ END_MARKER"
    by (rule dct_embed_at_capacity [where fs = fs and audio_path = audio_path, OF assms])
next
  assume "length (text_to_binary msg @ END_MARKER) = length c div block_size + 1"
  then have "length (text_to_binary msg @ END_MARKER) > length c div block_size" by simp
  then show "dct_embed fs audio_path msg output_path
              = (fs, Inl (CapacityError (int (length c div block_size))))"
    by (rule dct_embed_over_capacity [where fs = fs and audio_path = audio_path,
          OF assms(1,3)])
next
  assume "length (text_to_binary msg @ END_MARKER)
            = length (wavedec c level ! subband_idx) div dwt_step"
  then show "\<exists>out. dwt_embed fs audio_path msg output_path
                      = embed_result fs output_path rate a (Samples out)
                   \<and> first_channel (with_first_channel a (Samples out)) = Samples out
                   \<and> length out = length c
                   \<and> dwt_bits (wavedec out level ! subband_idx)
                       = text_to_binary msg @ END_MARKER"
    by (rule dwt_embed_at_capacity [where fs = fs and audio_path = audio_path, OF assms])
next
  assume "length (text_to_binary msg @ END_MARKER)
            = length (wavedec c level ! subband_idx) div dwt_step + 1"
  then show "dwt_embed fs audio_path msg output_path
              = (fs, Inl (CapacityError
                   (int (length (wavedec c level ! subband_idx) div dwt_step))))"
    by (rule dwt_embed_over_capacity [where fs = fs and audio_path = audio_path,
          OF assms(1,3)])
next
  assume "int (length (text_to_binary msg @ END_MARKER)) = dft_max_bits (length c)
          \<and> (\<exists>x \<in> set c. x \<noteq> 0)"
  then have c: "int (length (text_to_binary msg @ END_MARKER)) = dft_max_bits (length c)"
    and nz: "\<exists>x \<in> set c. x \<noteq> 0" by simp_all
  show "\<exists>out. dft_embed fs audio_path msg output_path
                 = embed_result fs output_path rate a (Samples out)
              \<and> first_channel (with_first_channel a (Samples out)) = Samples out
              \<and> length out = length c
              \<and> (max_abs (dft_modified_channel c msg) < 2
                   \<longrightarrow> dft_bits (fft (map complex_of_real out))
                         = text_to_binary msg @ END_MARKER)"
    by (rule dft_embed_at_capacity [where fs = fs and audio_path = audio_path,
          OF assms c nz])
next
  assume "int (length (text_to_binary msg @ END_MARKER)) = dft_max_bits (length c)
          \<and> \<not> (\<exists>x \<in> set c. x \<noteq> 0)"
  then have c: "int (length (text_to_binary msg @ END_MARKER)) = dft_max_bits (length c)"
    and z: "\<not> (\<exists>x \<in> set c. x \<noteq> 0)" by simp_all
  note s = dft_embed_silent_at_capacity [where fs = fs and audio_path = audio_path,
      OF assms(1,3) c z]
  show "dft_embed fs audio_path msg output_path
          = embed_result fs output_path rate a (NaNs (length c))"
    by (rule s(1))
  show "first_channel (with_first_channel a (NaNs (length c))) = NaNs (length c)"
    by (rule s(2))
  show "dft_extract (fst (dft_embed fs audio_path msg output_path)) output_path
          = Inr (replicate (length (text_to_binary msg @ END_MARKER) div 8) 0)"
    by (rule s(3))
next
  assume "int (length (text_to_binary msg @ END_MARKER)) = dft_max_bits (length c) + 1"
  then show "dft_embed fs audio_path msg output_path
              = (fs, Inl (CapacityError (dft_max_bits (length c))))"
    by (rule dft_embed_over_capacity [where fs = fs and audio_path = audio_path,
          OF assms(1,3)])
qed

theorem capacity_boundary_witness:
  "(\<exists>out. dct_embed [''in.wav'' \<mapsto> Wav 44100 (Mono (replicate 32768 1))] ''in.wav'' [72, 105]
            ''out.wav''
          = embed_result [''in.wav'' \<mapsto> Wav 44100 (Mono (replicate 32768 1))] ''out.wav'' 44100
              (Mono (replicate 32768 1)) (Samples out)
        \<and> first_channel (with_first_channel (Mono (replicate 32768 1)) (Samples out))
            = Samples out
        \<and> dct_bits out = text_to_binary [72, 105] @ END_MARKER)
   \<and> dct_embed [''in.wav'' \<mapsto> Wav 44100 (Mono (replicate 32767 1))] ''in.wav'' [72, 105]
        ''out.wav''
      = ([''in.wav'' \<mapsto> Wav 44100 (Mono (replicate 32767 1))], Inl (CapacityError 31))
   \<and> (\<exists>out. dwt_embed [''in.wav'' \<mapsto> Wav 44100 (Mono (replicate 51200 1))] ''in.wav'' [72, 105]
            ''out.wav''
          = embed_result [''in.wav'' \<mapsto> Wav 44100 (Mono (replicate 51200 1))] ''out.wav'' 44100
              (Mono (replicate 51200 1)) (Samples out)
        \<and> first_channel (with_first_channel (Mono (replicate 51200 1)) (Samples out))
            = Samples out
        \<and> dwt_bits (wavedec out level ! subband_idx) = text_to_binary [72, 105] @ END_MARKER)
   \<and> dwt_embed [''in.wav'' \<mapsto> Wav 44100 (Mono (replicate 51000 1))] ''in.wav'' [72, 105]
        ''out.wav''
      = ([''in.wav'' \<mapsto> Wav 44100 (Mono (replicate 51000 1))], Inl (CapacityError 31))
   \<and> (\<exists>out. dft_embed [''in.wav'' \<mapsto> Wav 44100 (Mono (1 # replicate 4127 0))] ''in.wav''
            [72, 105] ''out.wav''
          = embed_result [''in.wav'' \<mapsto> Wav 44100 (Mono (1 # replicate 4127 0))] ''out.wav''
              44100 (Mono (1 # replicate 4127 0)) (Samples out)
        \<and> first_channel (with_first_channel (Mono (1 # replicate 4127 0)) (Samples out))
            = Samples out
        \<and> dft_bits (fft (map complex_of_real out)) = text_to_binary [72, 105] @ END_MARKER)
   \<and> dft_embed [''in.wav'' \<mapsto> Wav 44100 (Mono (replicate 4128 0))] ''in.wav'' [72, 105]
        ''out.wav''
      = embed_result [''in.wav'' \<mapsto> Wav 44100 (Mono (replicate 4128 0))] ''out.wav'' 44100
          (Mono (replicate 4128 0)) (NaNs 4128)
   \<and> dft_embed [''in.wav'' \<mapsto> Wav 44100 (Mono (replicate 4127 1))] ''in.wav'' [72, 105]
        ''out.wav''
      = ([''in.wav'' \<mapsto> Wav 44100 (Mono (replicate 4127 1))], Inl (CapacityError 31))"
proof -
  have f: "length (text_to_binary [72, 105] @ END_MARKER) = 32"
    by (simp add: length_text_to_binary length_END_MARKER)
  have wf: "wf_audio (Mono xs)" for xs by (simp add: wf_audio_def)
  have fc: "first_channel (Mono xs) = Samples xs" for xs by (simp add: first_channel_def)
  have fl: "[''in.wav'' \<mapsto> Wav 44100 (Mono xs)] ''in.wav'' = Some (Wav 44100 (Mono xs))" for xs
    by simp
  {
    fix xs :: "real list"
    note capacity_boundary [where fs = "[''in.wav'' \<mapsto> Wav 44100 (Mono xs)]"
      and audio_path = "''in.wav''" and msg = "[72, 105]" and output_path = "''out.wav''",
      OF fl wf fc, unfolded f]
  }
  note t = this
  have 1: "\<exists>out. dct_embed [''in.wav'' \<mapsto> Wav 44100 (Mono (replicate 32768 1))] ''in.wav''
            [72, 105] ''out.wav''
          = embed_result [''in.wav'' \<mapsto> Wav 44100 (Mono (replicate 32768 1))] ''out.wav'' 44100
              (Mono (replicate 32768 1)) (Samples out)
        \<and> first_channel (with_first_channel (Mono (replicate 32768 1)) (Samples out))
            = Samples out
        \<and> dct_bits out = text_to_binary [72, 105] @ END_MARKER"
    using t [of "replicate 32768 1"] by (auto simp: block_size_def)
  have 2: "dct_embed [''in.wav'' \<mapsto> Wav 44100 (Mono (replicate 32767 1))] ''in.wav'' [72, 105]
        ''out.wav''
      = ([''in.wav'' \<mapsto> Wav 44100 (Mono (replicate 32767 1))], Inl (CapacityError 31))"
    using t [of "replicate 32767 1"] by (simp add: block_size_def)
  have 3: "\<exists>out. dwt_embed [''in.wav'' \<mapsto> Wav 44100 (Mono (replicate 51200 1))] ''in.wav''
            [72, 105] ''out.wav''
          = embed_result [''in.wav'' \<mapsto> Wav 44100 (Mono (replicate 51200 1))] ''out.wav'' 44100
              (Mono (replicate 51200 1)) (Samples out)
        \<and> first_channel (with_first_channel (Mono (replicate 51200 1)) (Samples out))
            = Samples out
        \<and> dwt_bits (wavedec out level ! subband_idx) = text_to_binary [72, 105] @ END_MARKER"
    using t [of "replicate 51200 1"] by (auto simp: dwt_capacity_constant dwt_step_def)
  have 4: "dwt_embed [''in.wav'' \<mapsto> Wav 44100 (Mono (replicate 51000 1))] ''in.wav'' [72, 105]
        ''out.wav''
      = ([''in.wav'' \<mapsto> Wav 44100 (Mono (replicate 51000 1))], Inl (CapacityError 31))"
    using t [of "replicate 51000 1"] by (simp add: dwt_capacity_constant dwt_step_def)
  have 5: "\<exists>out. dft_embed [''in.wav'' \<mapsto> Wav 44100 (Mono (1 # replicate 4127 0))] ''in.wav''
            [72, 105] ''out.wav''
          = embed_result [''in.wav'' \<mapsto> Wav 44100 (Mono (1 # replicate 4127 0))] ''out.wav''
              44100 (Mono (1 # replicate 4127 0)) (Samples out)
        \<and> first_channel (with_first_channel (Mono (1 # replicate 4127 0)) (Samples out))
            = Samples out
        \<and> dft_bits (fft (map complex_of_real out)) = text_to_binary [72, 105] @ END_MARKER"
    using t [of "1 # replicate 4127 0"] dft_impulse_peak [of 4127 "[72, 105]"]
    by (auto simp: dft_max_bits_def start_idx_def dft_step_def)
  have 6: "dft_embed [''in.wav'' \<mapsto> Wav 44100 (Mono (replicate 4128 0))] ''in.wav'' [72, 105]
        ''out.wav''
      = embed_result [''in.wav'' \<mapsto> Wav 44100 (Mono (replicate 4128 0))] ''out.wav'' 44100
          (Mono (replicate 4128 0)) (NaNs 4128)"
    using t [of "replicate 4128 0"] by (simp add: dft_max_bits_def start_idx_def dft_step_def)
  have 7: "dft_embed [''in.wav'' \<mapsto> Wav 44100 (Mono (replicate 4127 1))] ''in.wav'' [72, 105]
        ''out.wav''
      = ([''in.wav'' \<mapsto> Wav 44100 (Mono (replicate 4127 1))], Inl (CapacityError 31))"
    using t [of "replicate 4127 1"] by (simp add: dft_max_bits_def start_idx_def dft_step_def)
  show ?thesis using 1 2 3 4 5 6 7 by blast
qed

end
